theory Spec2Isabelle
  imports Main "HOL-Library.Sublist"
begin

section \<open>Browser session lifecycle manager (services/BrowserService.js)\<close>

text \<open>
  The class \<^verbatim>\<open>BrowserService\<close> keeps three pieces of mutable state: the map
  \<^verbatim>\<open>activeSessions\<close> and the two sets \<^verbatim>\<open>startingProfiles\<close> and
  \<^verbatim>\<open>stoppingProfiles\<close>. Its methods are \<^verbatim>\<open>async\<close>: a call runs synchronously up
  to its next \<^verbatim>\<open>await\<close>, where other calls and engine events may run before it is
  resumed. Each method is therefore embedded as the sequence of its synchronous segments,
  one function per segment, cut exactly at the \<^verbatim>\<open>await\<close>s of the source. What the
  awaited operation of the engine or of the profile store answers is a parameter of the
  segment that follows it.
\<close>

subsection \<open>Values of the program\<close>

text \<open>A thrown \<^verbatim>\<open>Error\<close>: its message and the properties the service attaches.\<close>

datatype js_error =
  JsError (message: string) (code: "string option") (profileId: "string option")
    (originalError: "js_error option")

text \<open>What an awaited promise settles to.\<close>

datatype 'a outcome = Resolved 'a | Rejected js_error

type_synonym browser = nat
type_synonym page = nat
type_synonym js_value = string

record proxy =
  host :: string
  port :: nat
  proxy_type :: string
  username :: "string option"
  password :: "string option"

record viewport =
  width :: nat
  height :: nat

record profile =
  name :: string
  userAgent :: "string option"
  viewport :: "viewport option"
  timezone :: "string option"
  proxy :: "proxy option"
  defaultHeadless :: "bool option"

text \<open>The third parameter of \<^verbatim>\<open>startBrowser\<close>; \<^verbatim>\<open>{}\<close> is \<open>\<lparr>opt_headless = None\<rparr>\<close>.\<close>

record options =
  opt_headless :: "bool option"

text \<open>
  A session object (lines 81-88). The field \<open>browser\<close> is optional because
  \<^verbatim>\<open>stopBrowser\<close> and the cleanup of \<^verbatim>\<open>startBrowser\<close> test it
  (\<^verbatim>\<open>if (session.browser)\<close>). Times are milliseconds since the epoch.
\<close>

record session =
  browser :: "browser option"
  page :: page
  session_profile :: profile
  startTime :: int
  status :: string
  headless :: bool

record proxy_info =
  info_host :: string
  info_port :: nat
  info_type :: string

record browserInfo =
  info_userAgent :: "string option"
  info_viewport :: "viewport option"
  info_timezone :: "string option"
  info_proxy :: "proxy_info option"

text \<open>The object \<^verbatim>\<open>startBrowser\<close> returns (lines 110-126).\<close>

record summary =
  sum_profileId :: string
  sum_profileName :: string
  sum_status :: string
  sum_startTime :: int
  sum_headless :: bool
  sum_browserInfo :: browserInfo

text \<open>The object \<^verbatim>\<open>getBrowserStatus\<close> returns (lines 204-211).\<close>

record session_status =
  st_profileId :: string
  st_profileName :: string
  st_status :: string
  st_startTime :: int
  st_headless :: bool
  st_uptime :: int

text \<open>The object \<^verbatim>\<open>navigateToUrl\<close> returns (lines 291-295).\<close>

record navigation_result =
  nav_success :: bool
  nav_url :: string
  nav_title :: string

subsection \<open>Effects on the outside world\<close>

text \<open>
  Every call the service makes on the logger, the profile store and the automation engine
  is appended to a trace, in the order of the source.
\<close>

datatype event =
    LogInfo string
  | LogError string js_error
  | Call_getProfile string
  | Call_createBrowserWithProfile profile bool
  | Call_on_disconnected browser string
  | Call_goto page string string nat
  | Call_close browser
  | Call_url page
  | Call_title page
  | Call_evaluate page string

subsection \<open>The JavaScript Map\<close>

text \<open>
  A \<^verbatim>\<open>Map\<close> keeps its entries in insertion order: \<^verbatim>\<open>set\<close> on a present key
  replaces the value in place, on an absent key appends.
\<close>

type_synonym ('k, 'v) js_map = "('k \<times> 'v) list"

fun Map_get :: "'k \<Rightarrow> ('k, 'v) js_map \<Rightarrow> 'v option" where
  "Map_get k [] = None"
| "Map_get k ((k', v) # m) = (if k' = k then Some v else Map_get k m)"

definition Map_has :: "'k \<Rightarrow> ('k, 'v) js_map \<Rightarrow> bool" where
  "Map_has k m = (Map_get k m \<noteq> None)"

fun Map_set :: "'k \<Rightarrow> 'v \<Rightarrow> ('k, 'v) js_map \<Rightarrow> ('k, 'v) js_map" where
  "Map_set k v [] = [(k, v)]"
| "Map_set k v ((k', v') # m) = (if k' = k then (k, v) # m else (k', v') # Map_set k v m)"

fun Map_delete :: "'k \<Rightarrow> ('k, 'v) js_map \<Rightarrow> ('k, 'v) js_map" where
  "Map_delete k [] = []"
| "Map_delete k ((k', v) # m) = (if k' = k then m else (k', v) # Map_delete k m)"

definition Map_keys :: "('k, 'v) js_map \<Rightarrow> 'k list" where
  "Map_keys m = map fst m"

subsection \<open>The state of the service\<close>

record state =
  activeSessions :: "(string, session) js_map"
  startingProfiles :: "string set"
  stoppingProfiles :: "string set"
  trace :: "event list"

text \<open>The constructor (lines 6-10).\<close>

definition init :: state where
  "init = \<lparr>activeSessions = [], startingProfiles = {}, stoppingProfiles = {}, trace = []\<rparr>"

definition emit :: "event \<Rightarrow> state \<Rightarrow> state" where
  "emit e s = s\<lparr>trace := trace s @ [e]\<rparr>"

text \<open>\<^verbatim>\<open>String.prototype.includes\<close>.\<close>

fun str_includes :: "string \<Rightarrow> string \<Rightarrow> bool" where
  "str_includes [] t = (t = [])"
| "str_includes (c # cs) t = (prefix t (c # cs) \<or> str_includes cs t)"

text \<open>A boolean inside a template literal.\<close>

definition show_bool :: "bool \<Rightarrow> string" where
  "show_bool b = (if b then ''true'' else ''false'')"

text \<open>What a segment hands back: the call is over, or it waits at an \<^verbatim>\<open>await\<close>.\<close>

datatype ('t, 'a) step = Return 'a | Throw js_error | Await 't

subsection \<open>startBrowser (lines 20-149)\<close>

text \<open>The points at which a call of \<^verbatim>\<open>startBrowser\<close> waits, with its live variables.\<close>

datatype start_task =
    Start_getProfile string "string option" options
  | Start_launch string "string option" profile bool
  | Start_goto string profile bool session
  | Start_cleanup_close string js_error

fun start_task_pid :: "start_task \<Rightarrow> string" where
  "start_task_pid (Start_getProfile p _ _) = p"
| "start_task_pid (Start_launch p _ _ _) = p"
| "start_task_pid (Start_goto p _ _ _) = p"
| "start_task_pid (Start_cleanup_close p _) = p"

text \<open>The \<^verbatim>\<open>finally\<close> block (lines 145-148).\<close>

definition start_finally :: "string \<Rightarrow> state \<Rightarrow> state" where
  "start_finally pid s = s\<lparr>startingProfiles := startingProfiles s - {pid}\<rparr>"

text \<open>Lines 141-148: the entry is deleted, the error thrown again, the guard released.\<close>

definition start_rethrow ::
  "string \<Rightarrow> js_error \<Rightarrow> state \<Rightarrow> (start_task, summary) step \<times> state" where
  "start_rethrow pid error s =
     (Throw error, start_finally pid (s\<lparr>activeSessions := Map_delete pid (activeSessions s)\<rparr>))"

text \<open>
  The \<^verbatim>\<open>catch\<close> block up to its \<^verbatim>\<open>await session.browser.close()\<close>
  (lines 128-136). The test \<^verbatim>\<open>has(profileId)\<close> and the \<^verbatim>\<open>get(profileId)\<close> after it
  are the one \<open>case\<close> on \<open>Map_get\<close>.
\<close>

definition start_catch ::
  "string \<Rightarrow> js_error \<Rightarrow> state \<Rightarrow> (start_task, summary) step \<times> state" where
  "start_catch pid error s =
     (let s1 = emit (LogError (''Failed to start browser for profile '' @ pid @ '':'') error) s
      in case Map_get pid (activeSessions s1) of
           None \<Rightarrow> (Throw error, start_finally pid s1)
         | Some session \<Rightarrow>
             (case browser session of
                Some b \<Rightarrow> (Await (Start_cleanup_close pid error), emit (Call_close b) s1)
              | None \<Rightarrow> start_rethrow pid error s1))"

text \<open>After the close of the cleanup has settled (lines 137-148).\<close>

definition start_after_cleanup_close ::
  "string \<Rightarrow> js_error \<Rightarrow> unit outcome \<Rightarrow> state \<Rightarrow> (start_task, summary) step \<times> state" where
  "start_after_cleanup_close pid error closed s =
     (let s1 = (case closed of
                  Resolved _ \<Rightarrow> s
                | Rejected closeError \<Rightarrow>
                    emit (LogError ''Error closing browser after failed start:'' closeError) s)
      in start_rethrow pid error s1)"

text \<open>The guards and the call of \<^verbatim>\<open>ProfileService.getProfile\<close> (lines 20-39).\<close>

definition start_enter ::
  "string \<Rightarrow> string option \<Rightarrow> options \<Rightarrow> state \<Rightarrow> (start_task, summary) step \<times> state" where
  "start_enter pid autoNavigateUrl opts s =
     (if pid \<in> startingProfiles s then
        (Throw (JsError (''Browser is currently starting for profile '' @ pid) None None None), s)
      else if Map_has pid (activeSessions s) then
        (Throw (JsError ''Browser session already running for this profile''
                  (Some ''SESSION_ACTIVE'') (Some pid) None), s)
      else
        (Await (Start_getProfile pid autoNavigateUrl opts),
         emit (Call_getProfile pid) (s\<lparr>startingProfiles := insert pid (startingProfiles s)\<rparr>)))"

text \<open>From the profile lookup to the launch (lines 39-56).\<close>

definition start_after_getProfile ::
  "string \<Rightarrow> string option \<Rightarrow> options \<Rightarrow> profile option outcome \<Rightarrow> state
     \<Rightarrow> (start_task, summary) step \<times> state" where
  "start_after_getProfile pid autoNavigateUrl opts looked_up s =
     (case looked_up of
        Rejected e \<Rightarrow> start_catch pid e s
      | Resolved None \<Rightarrow>
          start_catch pid (JsError (''Profile not found: '' @ pid)
                             (Some ''PROFILE_NOT_FOUND'') (Some pid) None) s
      | Resolved (Some prof) \<Rightarrow>
          (let hl = (case opt_headless opts of
                       Some h \<Rightarrow> h
                     | None \<Rightarrow> (case defaultHeadless prof of Some d \<Rightarrow> d | None \<Rightarrow> False));
               s1 = emit (LogInfo (''Starting browser for profile: '' @ name prof @ '' ('' @ pid
                                   @ '') - headless: '' @ show_bool hl)) s
           in (Await (Start_launch pid autoNavigateUrl prof hl),
               emit (Call_createBrowserWithProfile prof hl) s1)))"

text \<open>The classification of a launch error (lines 59-78).\<close>

definition launch_error :: "string \<Rightarrow> js_error \<Rightarrow> state \<Rightarrow> js_error \<times> state" where
  "launch_error pid launchError s =
     (if message launchError \<noteq> [] \<and>
         (str_includes (message launchError) ''executable'' \<or>
          str_includes (message launchError) ''ENOENT'' \<or>
          str_includes (message launchError) ''spawn'' \<or>
          str_includes (message launchError) ''not found'')
      then
        (JsError ''Browser executable not found. Please install Chrome/Firefox.''
           (Some ''BROWSER_NOT_FOUND'') None (Some launchError),
         emit (LogError (''Browser executable not found for profile '' @ pid @ '':'')
                 launchError) s)
      else
        (JsError (''Failed to launch browser: '' @ message launchError)
           (Some ''LAUNCH_FAILED'') None (Some launchError), s))"

text \<open>
  From the launch to the first navigation (lines 56-106); \<open>now\<close> is what
  \<^verbatim>\<open>new Date()\<close> reads.
\<close>

definition start_after_launch ::
  "string \<Rightarrow> string option \<Rightarrow> profile \<Rightarrow> bool \<Rightarrow> int \<Rightarrow> (browser \<times> page) outcome \<Rightarrow> state
     \<Rightarrow> (start_task, summary) step \<times> state" where
  "start_after_launch pid autoNavigateUrl prof hl now launched s =
     (case launched of
        Rejected launchError \<Rightarrow>
          (case launch_error pid launchError s of (error, s1) \<Rightarrow> start_catch pid error s1)
      | Resolved (b, pg) \<Rightarrow>
          (let session = \<lparr>browser = Some b, page = pg, session_profile = prof, startTime = now,
                          status = ''running'', headless = hl\<rparr>;
               s1 = s\<lparr>activeSessions := Map_set pid session (activeSessions s)\<rparr>;
               s2 = emit (LogInfo (''Session created for profile: '' @ name prof @ '' ('' @ pid
                                   @ '') - mode: '' @ (if hl then ''headless'' else ''visible''))) s1;
               s3 = emit (Call_on_disconnected b pid) s2;
               targetUrl = (case autoNavigateUrl of
                              None \<Rightarrow> ''https://httpbin.org/headers''
                            | Some u \<Rightarrow> if u = [] then ''https://httpbin.org/headers'' else u)
           in (Await (Start_goto pid prof hl session),
               emit (Call_goto pg targetUrl ''networkidle2'' 30000) s3)))"

text \<open>From the first navigation to the return (lines 103-126).\<close>

definition start_after_goto ::
  "string \<Rightarrow> profile \<Rightarrow> bool \<Rightarrow> session \<Rightarrow> unit outcome \<Rightarrow> state
     \<Rightarrow> (start_task, summary) step \<times> state" where
  "start_after_goto pid prof hl session navigated s =
     (case navigated of
        Rejected e \<Rightarrow> start_catch pid e s
      | Resolved _ \<Rightarrow>
          (let s1 = emit (LogInfo (''Browser started successfully for profile: '' @ name prof
                                   @ '' ('' @ pid @ '') - headless: '' @ show_bool hl)) s
           in (Return \<lparr>sum_profileId = pid, sum_profileName = name prof,
                       sum_status = ''running'', sum_startTime = startTime session,
                       sum_headless = hl,
                       sum_browserInfo =
                         \<lparr>info_userAgent = userAgent prof, info_viewport = viewport prof,
                          info_timezone = timezone prof,
                          info_proxy = (case proxy prof of
                                          None \<Rightarrow> None
                                        | Some px \<Rightarrow>
                                            Some \<lparr>info_host = host px, info_port = port px,
                                                  info_type = proxy_type px\<rparr>)\<rparr>\<rparr>,
               start_finally pid s1)))"

text \<open>The disconnect callback registered at lines 96-99.\<close>

definition on_disconnected :: "string \<Rightarrow> state \<Rightarrow> state" where
  "on_disconnected pid s =
     (let s1 = emit (LogInfo (''Browser disconnected for profile: '' @ pid)) s
      in s1\<lparr>activeSessions := Map_delete pid (activeSessions s1)\<rparr>)"

subsection \<open>stopBrowser (lines 156-191)\<close>

datatype stop_task = Stop_close string

text \<open>The \<^verbatim>\<open>finally\<close> block (lines 187-190).\<close>

definition stop_finally :: "string \<Rightarrow> state \<Rightarrow> state" where
  "stop_finally pid s = s\<lparr>stoppingProfiles := stoppingProfiles s - {pid}\<rparr>"

text \<open>Lines 178-181 and the \<^verbatim>\<open>finally\<close> block.\<close>

definition stop_succeed :: "string \<Rightarrow> state \<Rightarrow> (stop_task, bool) step \<times> state" where
  "stop_succeed pid s =
     (let s1 = s\<lparr>activeSessions := Map_delete pid (activeSessions s)\<rparr>;
          s2 = emit (LogInfo (''Browser stopped successfully for profile: '' @ pid)) s1
      in (Return True, stop_finally pid s2))"

text \<open>Up to \<^verbatim>\<open>await session.browser.close()\<close> (lines 156-175).\<close>

definition stop_enter :: "string \<Rightarrow> state \<Rightarrow> (stop_task, bool) step \<times> state" where
  "stop_enter pid s =
     (if pid \<in> stoppingProfiles s then
        (Return True, emit (LogInfo (''Browser is already being stopped for profile '' @ pid)) s)
      else
        (case Map_get pid (activeSessions s) of
           None \<Rightarrow> (Return False, s)
         | Some session \<Rightarrow>
             (let s1 = s\<lparr>stoppingProfiles := insert pid (stoppingProfiles s)\<rparr>;
                  s2 = emit (LogInfo (''Stopping browser for profile: '' @ pid)) s1
              in case browser session of
                   Some b \<Rightarrow> (Await (Stop_close pid), emit (Call_close b) s2)
                 | None \<Rightarrow> stop_succeed pid s2)))"

text \<open>After the close has settled (lines 175-190).\<close>

definition stop_after_close ::
  "string \<Rightarrow> unit outcome \<Rightarrow> state \<Rightarrow> (stop_task, bool) step \<times> state" where
  "stop_after_close pid closed s =
     (case closed of
        Resolved _ \<Rightarrow> stop_succeed pid s
      | Rejected error \<Rightarrow>
          (let s1 = emit (LogError (''Error stopping browser for profile '' @ pid @ '':'') error) s;
               s2 = s1\<lparr>activeSessions := Map_delete pid (activeSessions s1)\<rparr>
           in (Return True, stop_finally pid s2)))"

subsection \<open>getBrowserStatus (lines 198-212)\<close>

text \<open>\<open>now\<close> is what \<^verbatim>\<open>Date.now()\<close> reads; \<^verbatim>\<open>Math.floor\<close> of the quotient is \<open>div\<close>.\<close>

definition getBrowserStatus :: "int \<Rightarrow> string \<Rightarrow> state \<Rightarrow> session_status option" where
  "getBrowserStatus now pid s =
     (case Map_get pid (activeSessions s) of
        None \<Rightarrow> None
      | Some session \<Rightarrow>
          Some \<lparr>st_profileId = pid, st_profileName = name (session_profile session),
                st_status = status session, st_startTime = startTime session,
                st_headless = headless session,
                st_uptime = (now - startTime session) div 1000\<rparr>)"

subsection \<open>executeScript (lines 254-268)\<close>

datatype execute_task = Execute_evaluate string

definition execute_enter ::
  "string \<Rightarrow> string \<Rightarrow> state \<Rightarrow> (execute_task, js_value) step \<times> state" where
  "execute_enter pid script s =
     (case Map_get pid (activeSessions s) of
        None \<Rightarrow>
          (Throw (JsError (''No active browser session for profile: '' @ pid) None None None), s)
      | Some session \<Rightarrow>
          (Await (Execute_evaluate pid), emit (Call_evaluate (page session) script) s))"

definition execute_after_evaluate ::
  "string \<Rightarrow> js_value outcome \<Rightarrow> state \<Rightarrow> (execute_task, js_value) step \<times> state" where
  "execute_after_evaluate pid evaluated s =
     (case evaluated of
        Resolved result \<Rightarrow>
          (Return result, emit (LogInfo (''Script executed successfully for profile: '' @ pid)) s)
      | Rejected error \<Rightarrow>
          (Throw error,
           emit (LogError (''Script execution failed for profile '' @ pid @ '':'') error) s))"

subsection \<open>navigateToUrl (lines 276-300)\<close>

datatype navigate_task =
    Navigate_goto string session
  | Navigate_title string string

definition navigate_enter ::
  "string \<Rightarrow> string \<Rightarrow> state \<Rightarrow> (navigate_task, navigation_result) step \<times> state" where
  "navigate_enter pid url s =
     (case Map_get pid (activeSessions s) of
        None \<Rightarrow>
          (Throw (JsError (''No active browser session for profile: '' @ pid) None None None), s)
      | Some session \<Rightarrow>
          (Await (Navigate_goto pid session),
           emit (Call_goto (page session) url ''networkidle2'' 30000) s))"

definition navigate_fail ::
  "string \<Rightarrow> js_error \<Rightarrow> state \<Rightarrow> (navigate_task, navigation_result) step \<times> state" where
  "navigate_fail pid error s =
     (Throw error, emit (LogError (''Navigation failed for profile '' @ pid @ '':'') error) s)"

text \<open>
  Lines 283-294, up to \<^verbatim>\<open>await session.page.title()\<close>; \<open>page_url\<close> is what
  \<^verbatim>\<open>session.page.url()\<close> answers.
\<close>

definition navigate_after_goto ::
  "string \<Rightarrow> session \<Rightarrow> string \<Rightarrow> unit outcome \<Rightarrow> state
     \<Rightarrow> (navigate_task, navigation_result) step \<times> state" where
  "navigate_after_goto pid session page_url navigated s =
     (case navigated of
        Rejected error \<Rightarrow> navigate_fail pid error s
      | Resolved _ \<Rightarrow>
          (let s1 = emit (Call_url (page session)) s;
               currentUrl = page_url;
               s2 = emit (LogInfo (''Navigation successful for profile '' @ pid @ '': ''
                                   @ currentUrl)) s1
           in (Await (Navigate_title pid currentUrl), emit (Call_title (page session)) s2)))"

definition navigate_after_title ::
  "string \<Rightarrow> string \<Rightarrow> string outcome \<Rightarrow> state
     \<Rightarrow> (navigate_task, navigation_result) step \<times> state" where
  "navigate_after_title pid currentUrl titled s =
     (case titled of
        Rejected error \<Rightarrow> navigate_fail pid error s
      | Resolved t \<Rightarrow> (Return \<lparr>nav_success = True, nav_url = currentUrl, nav_title = t\<rparr>, s))"

subsection \<open>Resuming a waiting call\<close>

text \<open>What the awaited operations answer, and what the clock reads.\<close>

record env =
  getProfile_result :: "profile option outcome"
  launch_result :: "(browser \<times> page) outcome"
  goto_result :: "unit outcome"
  close_result :: "unit outcome"
  url_result :: string
  title_result :: "string outcome"
  evaluate_result :: "js_value outcome"
  clock :: int

fun start_resume ::
  "env \<Rightarrow> start_task \<Rightarrow> state \<Rightarrow> (start_task, summary) step \<times> state" where
  "start_resume env (Start_getProfile pid url opts) s =
     start_after_getProfile pid url opts (getProfile_result env) s"
| "start_resume env (Start_launch pid url prof hl) s =
     start_after_launch pid url prof hl (clock env) (launch_result env) s"
| "start_resume env (Start_goto pid prof hl session) s =
     start_after_goto pid prof hl session (goto_result env) s"
| "start_resume env (Start_cleanup_close pid error) s =
     start_after_cleanup_close pid error (close_result env) s"

fun stop_resume :: "env \<Rightarrow> stop_task \<Rightarrow> state \<Rightarrow> (stop_task, bool) step \<times> state" where
  "stop_resume env (Stop_close pid) s = stop_after_close pid (close_result env) s"

fun execute_resume ::
  "env \<Rightarrow> execute_task \<Rightarrow> state \<Rightarrow> (execute_task, js_value) step \<times> state" where
  "execute_resume env (Execute_evaluate pid) s =
     execute_after_evaluate pid (evaluate_result env) s"

fun navigate_resume ::
  "env \<Rightarrow> navigate_task \<Rightarrow> state \<Rightarrow> (navigate_task, navigation_result) step \<times> state" where
  "navigate_resume env (Navigate_goto pid session) s =
     navigate_after_goto pid session (url_result env) (goto_result env) s"
| "navigate_resume env (Navigate_title pid currentUrl) s =
     navigate_after_title pid currentUrl (title_result env) s"

subsection \<open>A call that nothing interleaves\<close>

text \<open>
  A call awaited to its end with no other call and no engine event running at its
  \<^verbatim>\<open>await\<close>s: every waiting point is resumed at once with the answer of \<open>env\<close>.
  The rank of a waiting point bounds the \<^verbatim>\<open>await\<close>s still ahead of it.
\<close>

fun start_rank :: "start_task \<Rightarrow> nat" where
  "start_rank (Start_getProfile _ _ _) = 3"
| "start_rank (Start_launch _ _ _ _) = 2"
| "start_rank (Start_goto _ _ _ _) = 1"
| "start_rank (Start_cleanup_close _ _) = 0"

function start_run :: "env \<Rightarrow> start_task \<Rightarrow> state \<Rightarrow> (js_error + summary) \<times> state" where
  "start_run env t s =
     (case start_resume env t s of
        (Return r, s') \<Rightarrow> (Inr r, s')
      | (Throw e, s') \<Rightarrow> (Inl e, s')
      | (Await t', s') \<Rightarrow> start_run env t' s')"
  by pat_completeness auto
termination
proof (relation "measure (\<lambda>(env, t, s). start_rank t)")
  show "wf (measure (\<lambda>(env, t, s). start_rank t))" by simp
next
  fix env t s x1 s' t'
  assume a: "(x1, s') = start_resume env t s" "x1 = Await t'"
  have c: "\<And>pid e s r. start_catch pid e s = (Await r, s') \<Longrightarrow> start_rank r = 0"
    by (auto simp: start_catch_def start_rethrow_def Let_def split: option.splits)
  from a have "start_rank t' < start_rank t"
    by (cases t)
      (auto simp: start_after_getProfile_def start_after_launch_def start_after_goto_def
          start_after_cleanup_close_def start_rethrow_def Let_def
        split: outcome.splits option.splits prod.splits dest!: c[OF sym] c)
  then show "((env, t', s'), (env, t, s)) \<in> measure (\<lambda>(env, t, s). start_rank t)"
    by simp
qed

definition startBrowser ::
  "env \<Rightarrow> string \<Rightarrow> string option \<Rightarrow> options \<Rightarrow> state \<Rightarrow> (js_error + summary) \<times> state" where
  "startBrowser env pid autoNavigateUrl opts s =
     (case start_enter pid autoNavigateUrl opts s of
        (Return r, s') \<Rightarrow> (Inr r, s')
      | (Throw e, s') \<Rightarrow> (Inl e, s')
      | (Await t, s') \<Rightarrow> start_run env t s')"

function stop_run :: "env \<Rightarrow> stop_task \<Rightarrow> state \<Rightarrow> (js_error + bool) \<times> state" where
  "stop_run env t s =
     (case stop_resume env t s of
        (Return r, s') \<Rightarrow> (Inr r, s')
      | (Throw e, s') \<Rightarrow> (Inl e, s')
      | (Await t', s') \<Rightarrow> stop_run env t' s')"
  by pat_completeness auto
termination
proof (relation "{}")
  show "wf {}" by simp
next
  fix env t s x1 s' t'
  assume "(x1, s') = stop_resume env t s" "x1 = Await t'"
  then have False
    by (cases t)
      (auto simp: stop_after_close_def stop_succeed_def Let_def split: outcome.splits)
  then show "((env, t', s'), (env, t, s)) \<in> {}" ..
qed

definition stopBrowser :: "env \<Rightarrow> string \<Rightarrow> state \<Rightarrow> (js_error + bool) \<times> state" where
  "stopBrowser env pid s =
     (case stop_enter pid s of
        (Return r, s') \<Rightarrow> (Inr r, s')
      | (Throw e, s') \<Rightarrow> (Inl e, s')
      | (Await t, s') \<Rightarrow> stop_run env t s')"

function execute_run ::
  "env \<Rightarrow> execute_task \<Rightarrow> state \<Rightarrow> (js_error + js_value) \<times> state" where
  "execute_run env t s =
     (case execute_resume env t s of
        (Return r, s') \<Rightarrow> (Inr r, s')
      | (Throw e, s') \<Rightarrow> (Inl e, s')
      | (Await t', s') \<Rightarrow> execute_run env t' s')"
  by pat_completeness auto
termination
proof (relation "{}")
  show "wf {}" by simp
next
  fix env t s x1 s' t'
  assume "(x1, s') = execute_resume env t s" "x1 = Await t'"
  then have False
    by (cases t) (auto simp: execute_after_evaluate_def split: outcome.splits)
  then show "((env, t', s'), (env, t, s)) \<in> {}" ..
qed

definition executeScript ::
  "env \<Rightarrow> string \<Rightarrow> string \<Rightarrow> state \<Rightarrow> (js_error + js_value) \<times> state" where
  "executeScript env pid script s =
     (case execute_enter pid script s of
        (Return r, s') \<Rightarrow> (Inr r, s')
      | (Throw e, s') \<Rightarrow> (Inl e, s')
      | (Await t, s') \<Rightarrow> execute_run env t s')"

fun navigate_rank :: "navigate_task \<Rightarrow> nat" where
  "navigate_rank (Navigate_goto _ _) = 1"
| "navigate_rank (Navigate_title _ _) = 0"

function navigate_run ::
  "env \<Rightarrow> navigate_task \<Rightarrow> state \<Rightarrow> (js_error + navigation_result) \<times> state" where
  "navigate_run env t s =
     (case navigate_resume env t s of
        (Return r, s') \<Rightarrow> (Inr r, s')
      | (Throw e, s') \<Rightarrow> (Inl e, s')
      | (Await t', s') \<Rightarrow> navigate_run env t' s')"
  by pat_completeness auto
termination
proof (relation "measure (\<lambda>(env, t, s). navigate_rank t)")
  show "wf (measure (\<lambda>(env, t, s). navigate_rank t))" by simp
next
  fix env t s x1 s' t'
  assume "(x1, s') = navigate_resume env t s" "x1 = Await t'"
  then have "navigate_rank t' < navigate_rank t"
    by (cases t)
      (auto simp: navigate_after_goto_def navigate_after_title_def navigate_fail_def Let_def
        split: outcome.splits)
  then show "((env, t', s'), (env, t, s)) \<in> measure (\<lambda>(env, t, s). navigate_rank t)"
    by simp
qed

definition navigateToUrl ::
  "env \<Rightarrow> string \<Rightarrow> string \<Rightarrow> state \<Rightarrow> (js_error + navigation_result) \<times> state" where
  "navigateToUrl env pid url s =
     (case navigate_enter pid url s of
        (Return r, s') \<Rightarrow> (Inr r, s')
      | (Throw e, s') \<Rightarrow> (Inl e, s')
      | (Await t, s') \<Rightarrow> navigate_run env t s')"

subsection \<open>Calls interleaved at their suspension points\<close>

text \<open>
  One thread runs all calls (cooperative scheduling): a configuration is the state
  of the service and the calls that wait at an \<^verbatim>\<open>await\<close>. A transition is one
  synchronous segment: a new call up to its first \<^verbatim>\<open>await\<close>, a waiting call resumed
  with any answer up to its next one, or the disconnect callback of a browser on which
  it was registered.
\<close>

datatype task =
    StartT start_task
  | StopT stop_task
  | NavigateT navigate_task
  | ExecuteT execute_task

definition spawn :: "('t \<Rightarrow> task) \<Rightarrow> ('t, 'a) step \<Rightarrow> task list" where
  "spawn wrap r = (case r of Await t \<Rightarrow> [wrap t] | Return _ \<Rightarrow> [] | Throw _ \<Rightarrow> [])"

inductive transition :: "state \<times> task list \<Rightarrow> state \<times> task list \<Rightarrow> bool" where
  call_startBrowser:
    "start_enter pid url opts s = (r, s') \<Longrightarrow> transition (s, ts) (s', ts @ spawn StartT r)"
| call_stopBrowser:
    "stop_enter pid s = (r, s') \<Longrightarrow> transition (s, ts) (s', ts @ spawn StopT r)"
| call_navigateToUrl:
    "navigate_enter pid url s = (r, s') \<Longrightarrow> transition (s, ts) (s', ts @ spawn NavigateT r)"
| call_executeScript:
    "execute_enter pid script s = (r, s') \<Longrightarrow> transition (s, ts) (s', ts @ spawn ExecuteT r)"
| resume_start:
    "start_resume env t s = (r, s') \<Longrightarrow>
     transition (s, ts1 @ StartT t # ts2) (s', ts1 @ spawn StartT r @ ts2)"
| resume_stop:
    "stop_resume env t s = (r, s') \<Longrightarrow>
     transition (s, ts1 @ StopT t # ts2) (s', ts1 @ spawn StopT r @ ts2)"
| resume_navigate:
    "navigate_resume env t s = (r, s') \<Longrightarrow>
     transition (s, ts1 @ NavigateT t # ts2) (s', ts1 @ spawn NavigateT r @ ts2)"
| resume_execute:
    "execute_resume env t s = (r, s') \<Longrightarrow>
     transition (s, ts1 @ ExecuteT t # ts2) (s', ts1 @ spawn ExecuteT r @ ts2)"
| disconnected:
    "Call_on_disconnected b pid \<in> set (trace s) \<Longrightarrow> transition (s, ts) (on_disconnected pid s, ts)"

text \<open>The configurations the service can be in, from its construction on.\<close>

definition reachable :: "state \<times> task list \<Rightarrow> bool" where
  "reachable c = rtranclp transition (init, []) c"

text \<open>The profiles with a call of \<^verbatim>\<open>startBrowser\<close>, of \<^verbatim>\<open>stopBrowser\<close> in flight.\<close>

fun starting_of :: "task list \<Rightarrow> string list" where
  "starting_of [] = []"
| "starting_of (StartT t # ts) = start_task_pid t # starting_of ts"
| "starting_of (_ # ts) = starting_of ts"

fun stopping_of :: "task list \<Rightarrow> string list" where
  "stopping_of [] = []"
| "stopping_of (StopT (Stop_close pid) # ts) = pid # stopping_of ts"
| "stopping_of (_ # ts) = stopping_of ts"

text \<open>The browsers on which \<^verbatim>\<open>close()\<close> was called, in order.\<close>

fun close_calls :: "event list \<Rightarrow> browser list" where
  "close_calls [] = []"
| "close_calls (Call_close b # es) = b # close_calls es"
| "close_calls (_ # es) = close_calls es"

subsection \<open>The invariant of the interleaved service\<close>

text \<open>The waiting points of \<^verbatim>\<open>startBrowser\<close> that lie before the \<^verbatim>\<open>set\<close> of line 90.\<close>

fun before_set :: "start_task \<Rightarrow> bool" where
  "before_set (Start_getProfile _ _ _) = True"
| "before_set (Start_launch _ _ _ _) = True"
| "before_set _ = False"

text \<open>
  What every reachable configuration satisfies: the keys of the registry are distinct,
  each guard set holds exactly the profiles of the calls in flight, every registered
  session owns a browser, and a start that has not yet reached line 90 has no entry.
\<close>

definition invariant :: "state \<times> task list \<Rightarrow> bool" where
  "invariant c =
     (case c of (s, ts) \<Rightarrow>
        distinct (Map_keys (activeSessions s)) \<and>
        distinct (starting_of ts) \<and> set (starting_of ts) = startingProfiles s \<and>
        distinct (stopping_of ts) \<and> set (stopping_of ts) = stoppingProfiles s \<and>
        (\<forall>k sess. (k, sess) \<in> set (activeSessions s) \<longrightarrow> browser sess \<noteq> None) \<and>
        (\<forall>t. StartT t \<in> set ts \<and> before_set t \<longrightarrow>
           Map_get (start_task_pid t) (activeSessions s) = None))"

text \<open>The part of the invariant that speaks of the registry alone.\<close>

definition registry_ok :: "(string, session) js_map \<Rightarrow> bool" where
  "registry_ok m = (distinct (Map_keys m) \<and> (\<forall>k sess. (k, sess) \<in> set m \<longrightarrow> browser sess \<noteq> None))"

text \<open>The part of the invariant on starts that have not yet reached line 90.\<close>

definition fresh :: "state \<Rightarrow> task list \<Rightarrow> bool" where
  "fresh s ts = (\<forall>t. StartT t \<in> set ts \<and> before_set t \<longrightarrow>
                   Map_get (start_task_pid t) (activeSessions s) = None)"

subsection \<open>Sample inputs\<close>

definition sample_profile :: profile where
  "sample_profile = \<lparr>name = ''Work'', userAgent = Some ''Mozilla/5.0 Test'', viewport = None,
     timezone = None, proxy = None, defaultHeadless = Some True\<rparr>"

text \<open>An engine that launches browser 7 with page 8 and fails only when asked to close.\<close>

definition sample_env :: env where
  "sample_env = \<lparr>getProfile_result = Resolved (Some sample_profile),
     launch_result = Resolved (7, 8), goto_result = Resolved (),
     close_result = Rejected (JsError ''Target closed'' None None None),
     url_result = ''https://example.com/'', title_result = Resolved ''Example'',
     evaluate_result = Resolved ''2'', clock = 1000\<rparr>"

text \<open>The service after one successful start of profile \<open>abc\<close>.\<close>

definition sample_running :: state where
  "sample_running = snd (startBrowser sample_env ''abc'' None \<lparr>opt_headless = None\<rparr> init)"

text \<open>The same service while a stop of \<open>abc\<close> waits for the browser to close.\<close>

definition sample_stopping :: state where
  "sample_stopping = snd (stop_enter ''abc'' sample_running)"

text \<open>The service while a start of \<open>abc\<close> waits for its profile.\<close>

definition sample_starting :: state where
  "sample_starting = snd (start_enter ''abc'' None \<lparr>opt_headless = None\<rparr> init)"

text \<open>The service after that stop, whose \<^verbatim>\<open>close()\<close> was rejected.\<close>

definition sample_stopped :: state where
  "sample_stopped = snd (stopBrowser sample_env ''abc'' sample_running)"

text \<open>An engine that launches browser 9 with page 10 one second later.\<close>

definition sample_env2 :: env where
  "sample_env2 = sample_env\<lparr>launch_result := Resolved (9, 10), clock := 2000\<rparr>"

text \<open>The service after \<open>abc\<close> was started again, in visible mode.\<close>

definition sample_restarted :: state where
  "sample_restarted =
     snd (startBrowser sample_env2 ''abc'' None \<lparr>opt_headless = Some False\<rparr> sample_stopped)"

text \<open>An engine whose first navigation fails.\<close>

definition sample_env_unreachable :: env where
  "sample_env_unreachable =
     sample_env\<lparr>goto_result := Rejected (JsError ''net::ERR_FAILED'' None None None)\<rparr>"

text \<open>The session that the sample engine gives profile \<open>abc\<close>.\<close>

definition sample_session :: session where
  "sample_session = \<lparr>browser = Some 7, page = 8, session_profile = sample_profile,
     startTime = 1000, status = ''running'', headless = True\<rparr>"

text \<open>The service while that start waits for its launch.\<close>

definition sample_launching :: state where
  "sample_launching =
     snd (start_resume sample_env (Start_getProfile ''abc'' None \<lparr>opt_headless = None\<rparr>)
            sample_starting)"

text \<open>The service while that start waits for its first navigation.\<close>

definition sample_launched :: state where
  "sample_launched =
     snd (start_resume sample_env (Start_launch ''abc'' None sample_profile True) sample_launching)"

text \<open>The same, after the browser disconnected during the navigation.\<close>

definition sample_disconnected :: state where
  "sample_disconnected = on_disconnected ''abc'' sample_launched"

text \<open>
  The service while the start, its navigation failed, waits for the close of its
  own cleanup.
\<close>

definition sample_rollback :: state where
  "sample_rollback =
     snd (start_resume sample_env_unreachable (Start_goto ''abc'' sample_profile True sample_session)
            sample_launched)"

section \<open>Auxiliary facts\<close>

declare start_run.simps [simp del] stop_run.simps [simp del] execute_run.simps [simp del]
  navigate_run.simps [simp del]

subsection \<open>The Map and the trace\<close>

lemma Map_get_None_iff: "Map_get k m = None \<longleftrightarrow> k \<notin> set (Map_keys m)"
  by (induction m) (auto simp: Map_keys_def split: if_splits)

lemma Map_get_Some_in_set: "Map_get k m = Some v \<Longrightarrow> (k, v) \<in> set m"
  by (induction m) (auto split: if_splits)

lemma Map_get_set_same: "Map_get k (Map_set k v m) = Some v"
  by (induction m) auto

lemma Map_get_set_other: "k' \<noteq> k \<Longrightarrow> Map_get k' (Map_set k v m) = Map_get k' m"
  by (induction m) auto

lemma Map_delete_set_absent: "Map_get k m = None \<Longrightarrow> Map_delete k (Map_set k v m) = m"
  by (induction m) (auto split: if_splits)

lemma Map_delete_absent: "Map_get k m = None \<Longrightarrow> Map_delete k m = m"
  by (induction m) (auto split: if_splits)

lemma Map_keys_delete: "Map_keys (Map_delete k m) = remove1 k (Map_keys m)"
  by (induction m) (auto simp: Map_keys_def)

lemma set_Map_delete: "set (Map_delete k m) \<subseteq> set m"
  by (induction m) (auto split: if_splits)

lemma Map_get_delete_None: "Map_get q m = None \<Longrightarrow> Map_get q (Map_delete k m) = None"
  by (induction m) (auto split: if_splits)

lemma Map_get_delete_same: "distinct (Map_keys m) \<Longrightarrow> Map_get k (Map_delete k m) = None"
  by (simp add: Map_get_None_iff Map_keys_delete)

lemma set_Map_keys_set: "set (Map_keys (Map_set k v m)) = insert k (set (Map_keys m))"
  by (induction m) (force simp: Map_keys_def split: if_splits)+

lemma distinct_Map_set: "distinct (Map_keys m) \<Longrightarrow> distinct (Map_keys (Map_set k v m))"
proof (induction m)
  case Nil
  then show ?case by (simp add: Map_keys_def)
next
  case (Cons a m)
  have "set (map fst (Map_set k v m)) = insert k (set (map fst m))"
    using set_Map_keys_set[of k v m] by (simp add: Map_keys_def)
  with Cons show ?case by (cases a) (auto simp: Map_keys_def)
qed

lemma set_Map_set: "set (Map_set k v m) \<subseteq> insert (k, v) (set m)"
  by (induction m) (auto split: if_splits)

lemma distinct_keys_filter:
  "distinct (Map_keys m) \<Longrightarrow> length (filter (\<lambda>(k, v). k = p) m) \<le> 1"
proof (induction m)
  case Nil
  then show ?case by simp
next
  case (Cons a m)
  obtain k v where a: "a = (k, v)" by (cases a)
  show ?case
  proof (cases "k = p")
    case True
    with Cons.prems a have "p \<notin> fst ` set m" by (simp add: Map_keys_def)
    then have "filter (\<lambda>(k, v). k = p) m = []"
      by (auto simp: filter_empty_conv intro: rev_image_eqI)
    with a True show ?thesis by simp
  next
    case False
    with Cons a show ?thesis by (simp add: Map_keys_def)
  qed
qed

lemma close_calls_append: "close_calls (xs @ ys) = close_calls xs @ close_calls ys"
  by (induction xs rule: close_calls.induct) simp_all

subsection \<open>The state after the small steps\<close>

lemma emit_simps [simp]:
  "activeSessions (emit ev s) = activeSessions s"
  "startingProfiles (emit ev s) = startingProfiles s"
  "stoppingProfiles (emit ev s) = stoppingProfiles s"
  "trace (emit ev s) = trace s @ [ev]"
  by (simp_all add: emit_def)

lemma start_finally_simps [simp]:
  "activeSessions (start_finally p s) = activeSessions s"
  "startingProfiles (start_finally p s) = startingProfiles s - {p}"
  "stoppingProfiles (start_finally p s) = stoppingProfiles s"
  "trace (start_finally p s) = trace s"
  by (simp_all add: start_finally_def)

lemma stop_finally_simps [simp]:
  "activeSessions (stop_finally p s) = activeSessions s"
  "startingProfiles (stop_finally p s) = startingProfiles s"
  "stoppingProfiles (stop_finally p s) = stoppingProfiles s - {p}"
  "trace (stop_finally p s) = trace s"
  by (simp_all add: stop_finally_def)

lemma launch_error_simps [simp]:
  "activeSessions (snd (launch_error p le s)) = activeSessions s"
  "startingProfiles (snd (launch_error p le s)) = startingProfiles s"
  "stoppingProfiles (snd (launch_error p le s)) = stoppingProfiles s"
  "close_calls (trace (snd (launch_error p le s))) = close_calls (trace s)"
  "originalError (fst (launch_error p le s)) = Some le"
  by (simp_all add: launch_error_def close_calls_append)

lemma launch_error_fst: "fst (launch_error p le s) = fst (launch_error p le s0)"
  by (simp add: launch_error_def)

lemmas start_defs =
  start_after_getProfile_def start_after_launch_def start_after_goto_def
  start_after_cleanup_close_def start_rethrow_def start_catch_def case_prod_beta

lemma start_catch_absent:
  "Map_get p (activeSessions s) = None \<Longrightarrow>
   start_catch p e s =
     (Throw e,
      start_finally p (emit (LogError (''Failed to start browser for profile '' @ p @ '':'') e) s))"
  by (simp add: start_catch_def Let_def)

subsection \<open>What one segment changes\<close>

lemma start_enter_effect:
  assumes "start_enter p url opts s = (r, s')"
  shows "stoppingProfiles s' = stoppingProfiles s \<and> activeSessions s' = activeSessions s \<and>
         ((\<exists>t. r = Await t \<and> start_task_pid t = p \<and> before_set t \<and>
               p \<notin> startingProfiles s \<and> Map_get p (activeSessions s) = None \<and>
               startingProfiles s' = insert p (startingProfiles s)) \<or>
          ((\<forall>t. r \<noteq> Await t) \<and> startingProfiles s' = startingProfiles s))"
  using assms by (auto simp: start_enter_def Map_has_def split: if_splits)

lemma start_catch_effect:
  assumes "start_catch p e s = (r, s')"
  shows "stoppingProfiles s' = stoppingProfiles s \<and>
         ((\<exists>t. r = Await t \<and> start_task_pid t = p \<and> \<not> before_set t \<and>
               startingProfiles s' = startingProfiles s \<and> activeSessions s' = activeSessions s) \<or>
          ((\<forall>t. r \<noteq> Await t) \<and> startingProfiles s' = startingProfiles s - {p} \<and>
           (activeSessions s' = activeSessions s \<or>
            activeSessions s' = Map_delete p (activeSessions s))))"
  using assms
  by (auto simp: start_catch_def start_rethrow_def Let_def split: option.splits)

lemma start_resume_effect:
  assumes "start_resume env t s = (r, s')"
  shows "stoppingProfiles s' = stoppingProfiles s \<and>
         ((\<exists>t'. r = Await t' \<and> start_task_pid t' = start_task_pid t \<and>
               startingProfiles s' = startingProfiles s \<and>
               (if before_set t' then before_set t \<and> activeSessions s' = activeSessions s
                else activeSessions s' = activeSessions s \<or>
                     (\<exists>sess. browser sess \<noteq> None \<and>
                        activeSessions s' = Map_set (start_task_pid t) sess (activeSessions s)))) \<or>
          ((\<forall>t'. r \<noteq> Await t') \<and>
           startingProfiles s' = startingProfiles s - {start_task_pid t} \<and>
           (activeSessions s' = activeSessions s \<or>
            activeSessions s' = Map_delete (start_task_pid t) (activeSessions s))))"
proof (cases t)
  case (Start_getProfile p url opts)
  show ?thesis
  proof (cases "getProfile_result env")
    case (Rejected e)
    with assms Start_getProfile start_catch_effect[of p e s r s'] show ?thesis
      by (simp add: start_after_getProfile_def) blast
  next
    case (Resolved po)
    show ?thesis
    proof (cases po)
      case None
      with Resolved assms Start_getProfile
        start_catch_effect[of p "JsError (''Profile not found: '' @ p) (Some ''PROFILE_NOT_FOUND'') (Some p) None" s r s']
      show ?thesis by (simp add: start_after_getProfile_def) blast
    next
      case (Some prof)
      with Resolved assms Start_getProfile show ?thesis
        by (auto simp: start_after_getProfile_def Let_def)
    qed
  qed
next
  case (Start_launch p url prof hl)
  show ?thesis
  proof (cases "launch_result env")
    case (Rejected le)
    with assms Start_launch
      start_catch_effect[of p "fst (launch_error p le s)" "snd (launch_error p le s)" r s']
    show ?thesis by (simp add: start_after_launch_def case_prod_beta) blast
  next
    case (Resolved bp)
    obtain b pg where bp: "bp = (b, pg)" by (cases bp)
    let ?sess = "\<lparr>browser = Some b, page = pg, session_profile = prof, startTime = clock env,
                  status = ''running'', headless = hl\<rparr>"
    have "browser ?sess \<noteq> None" by simp
    moreover from assms Start_launch Resolved bp
    have "r = Await (Start_goto p prof hl ?sess)"
      and "activeSessions s' = Map_set p ?sess (activeSessions s)"
      and "startingProfiles s' = startingProfiles s"
      and "stoppingProfiles s' = stoppingProfiles s"
      by (auto simp: start_after_launch_def Let_def)
    ultimately show ?thesis using Start_launch by (simp del: session.simps) blast
  qed
next
  case (Start_goto p prof hl sess)
  show ?thesis
  proof (cases "goto_result env")
    case (Rejected e)
    with assms Start_goto start_catch_effect[of p e s r s'] show ?thesis
      by (simp add: start_after_goto_def) blast
  next
    case (Resolved u)
    with assms Start_goto show ?thesis
      by (auto simp: start_after_goto_def Let_def)
  qed
next
  case (Start_cleanup_close p e)
  with assms show ?thesis
    by (cases "close_result env")
      (auto simp: start_after_cleanup_close_def start_rethrow_def Let_def)
qed

lemma stop_enter_effect:
  assumes "stop_enter p s = (r, s')"
  shows "startingProfiles s' = startingProfiles s \<and>
         ((r = Await (Stop_close p) \<and> p \<notin> stoppingProfiles s \<and>
           stoppingProfiles s' = insert p (stoppingProfiles s) \<and>
           activeSessions s' = activeSessions s) \<or>
          ((\<forall>t. r \<noteq> Await t) \<and> stoppingProfiles s' = stoppingProfiles s \<and>
           (activeSessions s' = activeSessions s \<or>
            activeSessions s' = Map_delete p (activeSessions s))))"
  using assms
  by (auto simp: stop_enter_def stop_succeed_def Let_def split: if_splits option.splits)

lemma stop_resume_effect:
  assumes "stop_resume env t s = (r, s')"
  shows "\<exists>p. t = Stop_close p \<and> (\<forall>t'. r \<noteq> Await t') \<and>
           startingProfiles s' = startingProfiles s \<and>
           stoppingProfiles s' = stoppingProfiles s - {p} \<and>
           activeSessions s' = Map_delete p (activeSessions s)"
  using assms
  by (cases t; cases "close_result env")
    (auto simp: stop_after_close_def stop_succeed_def Let_def)

lemma navigate_enter_effect:
  assumes "navigate_enter p url s = (r, s')"
  shows "startingProfiles s' = startingProfiles s \<and> stoppingProfiles s' = stoppingProfiles s \<and>
         activeSessions s' = activeSessions s"
  using assms by (auto simp: navigate_enter_def split: option.splits)

lemma navigate_resume_effect:
  assumes "navigate_resume env t s = (r, s')"
  shows "startingProfiles s' = startingProfiles s \<and> stoppingProfiles s' = stoppingProfiles s \<and>
         activeSessions s' = activeSessions s"
  using assms
  by (cases t)
    (auto simp: navigate_after_goto_def navigate_after_title_def navigate_fail_def Let_def
      split: outcome.splits)

lemma execute_enter_effect:
  assumes "execute_enter p script s = (r, s')"
  shows "startingProfiles s' = startingProfiles s \<and> stoppingProfiles s' = stoppingProfiles s \<and>
         activeSessions s' = activeSessions s"
  using assms by (auto simp: execute_enter_def split: option.splits)

lemma execute_resume_effect:
  assumes "execute_resume env t s = (r, s')"
  shows "startingProfiles s' = startingProfiles s \<and> stoppingProfiles s' = stoppingProfiles s \<and>
         activeSessions s' = activeSessions s"
  using assms
  by (cases t) (auto simp: execute_after_evaluate_def split: outcome.splits)

subsection \<open>Every transition keeps the invariant\<close>

lemma registry_ok_delete: "registry_ok m \<Longrightarrow> registry_ok (Map_delete k m)"
  using set_Map_delete[of k m] by (auto simp: registry_ok_def Map_keys_delete)

lemma registry_ok_set: "registry_ok m \<Longrightarrow> browser v \<noteq> None \<Longrightarrow> registry_ok (Map_set k v m)"
  using set_Map_set[of k v m] by (auto simp: registry_ok_def distinct_Map_set)

lemma starting_of_append: "starting_of (xs @ ys) = starting_of xs @ starting_of ys"
  by (induction xs rule: starting_of.induct) simp_all

lemma stopping_of_append: "stopping_of (xs @ ys) = stopping_of xs @ stopping_of ys"
  by (induction xs rule: stopping_of.induct) simp_all

lemma start_task_in_starting_of: "StartT t \<in> set ts \<Longrightarrow> start_task_pid t \<in> set (starting_of ts)"
  by (induction ts rule: starting_of.induct) auto

lemma starting_of_spawn [simp]:
  "starting_of (spawn StartT r) = (case r of Await t \<Rightarrow> [start_task_pid t] | Return _ \<Rightarrow> [] | Throw _ \<Rightarrow> [])"
  "starting_of (spawn StopT r1) = []"
  "starting_of (spawn NavigateT r2) = []"
  "starting_of (spawn ExecuteT r3) = []"
  by (simp_all add: spawn_def split: step.splits)

lemma stopping_of_spawn [simp]:
  "stopping_of (spawn StopT r) = (case r of Await (Stop_close p) \<Rightarrow> [p] | Return _ \<Rightarrow> [] | Throw _ \<Rightarrow> [])"
  "stopping_of (spawn StartT r1) = []"
  "stopping_of (spawn NavigateT r2) = []"
  "stopping_of (spawn ExecuteT r3) = []"
  by (simp_all add: spawn_def split: step.splits stop_task.splits)

lemma StartT_in_spawn [simp]:
  "StartT t \<in> set (spawn StartT r) \<longleftrightarrow> r = Await t"
  "StartT t \<notin> set (spawn StopT r1)"
  "StartT t \<notin> set (spawn NavigateT r2)"
  "StartT t \<notin> set (spawn ExecuteT r3)"
  by (auto simp: spawn_def split: step.splits)

lemma invariant_alt:
  "invariant (s, ts) \<longleftrightarrow>
     registry_ok (activeSessions s) \<and>
     distinct (starting_of ts) \<and> set (starting_of ts) = startingProfiles s \<and>
     distinct (stopping_of ts) \<and> set (stopping_of ts) = stoppingProfiles s \<and> fresh s ts"
  by (auto simp: invariant_def registry_ok_def fresh_def)

lemma invariant_call_start:
  assumes "start_enter p url opts s = (r, s')" and "invariant (s, ts)"
  shows "invariant (s', ts @ spawn StartT r)"
  using start_enter_effect[OF assms(1)] assms(2)
  by (cases r) (auto simp: invariant_alt starting_of_append stopping_of_append fresh_def)

lemma invariant_call_stop:
  assumes "stop_enter p s = (r, s')" and "invariant (s, ts)"
  shows "invariant (s', ts @ spawn StopT r)"
  using stop_enter_effect[OF assms(1)] assms(2)
  by (cases r) (auto simp: invariant_alt starting_of_append stopping_of_append fresh_def
      registry_ok_delete Map_get_delete_None)

lemma invariant_resume_stop:
  assumes "stop_resume env t s = (r, s')" and "invariant (s, ts1 @ StopT t # ts2)"
  shows "invariant (s', ts1 @ spawn StopT r @ ts2)"
  using stop_resume_effect[OF assms(1)] assms(2)
  by (cases r) (auto simp: invariant_alt starting_of_append stopping_of_append fresh_def
      registry_ok_delete Map_get_delete_None)

lemma invariant_disconnected:
  assumes "invariant (s, ts)"
  shows "invariant (on_disconnected pid s, ts)"
  using assms
  by (auto simp: invariant_alt on_disconnected_def Let_def fresh_def
      registry_ok_delete Map_get_delete_None)

lemma invariant_resume_start:
  assumes "start_resume env t s = (r, s')" and "invariant (s, ts1 @ StartT t # ts2)"
  shows "invariant (s', ts1 @ spawn StartT r @ ts2)"
proof -
  let ?p = "start_task_pid t"
  from assms(2) have ok: "registry_ok (activeSessions s)"
    and d: "distinct (starting_of ts1 @ ?p # starting_of ts2)"
    and st: "set (starting_of ts1) \<union> insert ?p (set (starting_of ts2)) = startingProfiles s"
    and dstop: "distinct (stopping_of (ts1 @ ts2))"
    and stop: "set (stopping_of (ts1 @ ts2)) = stoppingProfiles s"
    and fr: "fresh s (ts1 @ StartT t # ts2)"
    by (auto simp: invariant_alt starting_of_append stopping_of_append)
  have others: "start_task_pid u \<noteq> ?p" if "StartT u \<in> set ts1 \<union> set ts2" for u
    using that d start_task_in_starting_of[of u ts1] start_task_in_starting_of[of u ts2]
    by auto
  note eff = start_resume_effect[OF assms(1)]
  then have stop_eq: "stoppingProfiles s' = stoppingProfiles s" by simp
  from eff consider
    (waits) t' where "r = Await t'" "start_task_pid t' = ?p"
      "startingProfiles s' = startingProfiles s"
      "if before_set t' then before_set t \<and> activeSessions s' = activeSessions s
       else activeSessions s' = activeSessions s \<or>
            (\<exists>sess. browser sess \<noteq> None \<and>
               activeSessions s' = Map_set ?p sess (activeSessions s))"
  | (over) "\<forall>t'. r \<noteq> Await t'" "startingProfiles s' = startingProfiles s - {?p}"
      "activeSessions s' = activeSessions s \<or>
       activeSessions s' = Map_delete ?p (activeSessions s)"
    by blast
  then show ?thesis
  proof cases
    case (waits t')
    note e = stop_eq waits(1-3) and reg = waits(4)
    from reg ok have ok': "registry_ok (activeSessions s')"
      by (auto simp: registry_ok_set split: if_splits)
    have "fresh s' (ts1 @ StartT t' # ts2)"
      unfolding fresh_def
    proof (intro allI impI, elim conjE)
      fix u assume u: "StartT u \<in> set (ts1 @ StartT t' # ts2)" "before_set u"
      show "Map_get (start_task_pid u) (activeSessions s') = None"
      proof (cases "u = t'")
        case True
        with u reg fr e show ?thesis by (auto simp: fresh_def)
      next
        case False
        with u have in12: "StartT u \<in> set ts1 \<union> set ts2" by auto
        then have "start_task_pid u \<noteq> ?p" by (rule others)
        moreover from in12 u fr have "Map_get (start_task_pid u) (activeSessions s) = None"
          by (auto simp: fresh_def)
        ultimately show ?thesis using reg
          by (auto simp: Map_get_set_other split: if_splits)
      qed
    qed
    with e ok' d st dstop stop show ?thesis
      by (simp add: invariant_alt starting_of_append stopping_of_append spawn_def)
  next
    case over
    note e = stop_eq over(1,2) and reg = over(3)
    from reg ok have ok': "registry_ok (activeSessions s')"
      by (auto simp: registry_ok_delete)
    from e have sp: "spawn StartT r = []"
      by (cases r) (auto simp: spawn_def)
    from fr reg have "fresh s' (ts1 @ ts2)"
      by (auto simp: fresh_def Map_get_delete_None)
    with e ok' d st dstop stop sp show ?thesis
      by (auto simp: invariant_alt starting_of_append stopping_of_append)
  qed
qed

lemma invariant_transition:
  assumes "transition c c'" and "invariant c"
  shows "invariant c'"
  using assms
proof (cases rule: transition.cases)
  case (call_startBrowser pid url opts s r s' ts)
  with assms(2) show ?thesis by (simp add: invariant_call_start)
next
  case (call_stopBrowser pid s r s' ts)
  with assms(2) show ?thesis by (simp add: invariant_call_stop)
next
  case (call_navigateToUrl pid url s r s' ts)
  with assms(2) navigate_enter_effect[of pid url s r s'] show ?thesis
    by (cases r)
      (auto simp: spawn_def invariant_alt fresh_def starting_of_append stopping_of_append)
next
  case (call_executeScript pid script s r s' ts)
  with assms(2) execute_enter_effect[of pid script s r s'] show ?thesis
    by (cases r)
      (auto simp: spawn_def invariant_alt fresh_def starting_of_append stopping_of_append)
next
  case (resume_start env t s r s' ts1 ts2)
  with assms(2) show ?thesis by (simp add: invariant_resume_start)
next
  case (resume_stop env t s r s' ts1 ts2)
  with assms(2) show ?thesis by (simp add: invariant_resume_stop)
next
  case (resume_navigate env t s r s' ts1 ts2)
  with assms(2) navigate_resume_effect[of env t s r s'] show ?thesis
    by (cases r)
      (auto simp: spawn_def invariant_alt fresh_def starting_of_append stopping_of_append)
next
  case (resume_execute env t s r s' ts1 ts2)
  with assms(2) execute_resume_effect[of env t s r s'] show ?thesis
    by (cases r)
      (auto simp: spawn_def invariant_alt fresh_def starting_of_append stopping_of_append)
next
  case (disconnected b pid s ts)
  with assms(2) show ?thesis by (simp add: invariant_disconnected)
qed

lemma invariant_init: "invariant (init, [])"
  by (simp add: invariant_def init_def Map_keys_def)

lemma reachable_invariant: "reachable c \<Longrightarrow> invariant c"
  unfolding reachable_def
  by (induction rule: rtranclp_induct) (auto intro: invariant_init invariant_transition)

subsection \<open>A call run to its end is one interleaving\<close>

lemma reachable_step: "reachable c \<Longrightarrow> transition c c' \<Longrightarrow> reachable c'"
  unfolding reachable_def by (rule rtranclp.rtrancl_into_rtrancl)

lemma reachable_init: "reachable (init, [])"
  by (simp add: reachable_def)

lemma start_run_reachable:
  "reachable (s, ts1 @ StartT t # ts2) \<Longrightarrow> reachable (snd (start_run env t s), ts1 @ ts2)"
proof (induction env t s rule: start_run.induct)
  case (1 env t s)
  obtain r s' where rs: "start_resume env t s = (r, s')" by (cases "start_resume env t s")
  from "1.prems" have step: "reachable (s', ts1 @ spawn StartT r @ ts2)"
    by (rule reachable_step) (rule transition.resume_start[OF rs])
  show ?case
  proof (cases r)
    case (Await t')
    with step have "reachable (s', ts1 @ StartT t' # ts2)" by (simp add: spawn_def)
    then have "reachable (snd (start_run env t' s'), ts1 @ ts2)"
      by (rule "1.IH"[OF rs[symmetric] Await])
    with rs Await show ?thesis by (simp add: start_run.simps[of env t s])
  next
    case (Return x)
    with step rs show ?thesis by (simp add: start_run.simps[of env t s] spawn_def)
  next
    case (Throw e)
    with step rs show ?thesis by (simp add: start_run.simps[of env t s] spawn_def)
  qed
qed

lemma startBrowser_reachable:
  assumes "reachable (s, ts)"
  shows "reachable (snd (startBrowser env p url opts s), ts)"
proof -
  obtain r s' where rs: "start_enter p url opts s = (r, s')" by (cases "start_enter p url opts s")
  from assms have step: "reachable (s', ts @ spawn StartT r)"
    by (rule reachable_step) (rule transition.call_startBrowser[OF rs])
  show ?thesis
  proof (cases r)
    case (Await t)
    with step have "reachable (s', ts @ StartT t # [])" by (simp add: spawn_def)
    from start_run_reachable[OF this, of env] rs Await show ?thesis
      by (simp add: startBrowser_def)
  next
    case (Return x)
    with step rs show ?thesis by (simp add: startBrowser_def spawn_def)
  next
    case (Throw e)
    with step rs show ?thesis by (simp add: startBrowser_def spawn_def)
  qed
qed

lemma stopBrowser_reachable:
  assumes "reachable (s, ts)"
  shows "reachable (snd (stopBrowser env p s), ts)"
proof -
  obtain r s' where rs: "stop_enter p s = (r, s')" by (cases "stop_enter p s")
  from assms have step: "reachable (s', ts @ spawn StopT r)"
    by (rule reachable_step) (rule transition.call_stopBrowser[OF rs])
  show ?thesis
  proof (cases r)
    case (Await t)
    obtain r2 s2 where rs2: "stop_resume env t s' = (r2, s2)" by (cases "stop_resume env t s'")
    from stop_resume_effect[OF rs2] have no: "spawn StopT r2 = []"
      by (cases r2) (auto simp: spawn_def)
    from step Await have "reachable (s', ts @ StopT t # [])" by (simp add: spawn_def)
    then have "reachable (s2, ts @ spawn StopT r2 @ [])"
      by (rule reachable_step) (rule transition.resume_stop[OF rs2])
    with no rs rs2 Await stop_resume_effect[OF rs2] show ?thesis
      by (cases r2) (auto simp: stopBrowser_def stop_run.simps[of env t s'])
  next
    case (Return x)
    with step rs show ?thesis by (simp add: stopBrowser_def spawn_def)
  next
    case (Throw e)
    with step rs show ?thesis by (simp add: stopBrowser_def spawn_def)
  qed
qed

subsection \<open>The outcomes of a call that nothing interleaves\<close>

lemma startBrowser_outcomes:
  assumes "startBrowser env p url opts s = (r, s')"
    and "p \<notin> startingProfiles s" and "\<not> Map_has p (activeSessions s)"
  shows "(\<exists>e0. getProfile_result env = Rejected e0 \<and> r = Inl e0 \<and>
            activeSessions s' = activeSessions s \<and> startingProfiles s' = startingProfiles s \<and>
            close_calls (trace s') = close_calls (trace s)) \<or>
         (getProfile_result env = Resolved None \<and>
            r = Inl (JsError (''Profile not found: '' @ p) (Some ''PROFILE_NOT_FOUND'') (Some p) None) \<and>
            activeSessions s' = activeSessions s \<and> startingProfiles s' = startingProfiles s \<and>
            close_calls (trace s') = close_calls (trace s)) \<or>
         (\<exists>prof le. getProfile_result env = Resolved (Some prof) \<and> launch_result env = Rejected le \<and>
            r = Inl (fst (launch_error p le s)) \<and>
            activeSessions s' = activeSessions s \<and> startingProfiles s' = startingProfiles s \<and>
            close_calls (trace s') = close_calls (trace s)) \<or>
         (\<exists>prof b pg ge. getProfile_result env = Resolved (Some prof) \<and>
            launch_result env = Resolved (b, pg) \<and> goto_result env = Rejected ge \<and> r = Inl ge \<and>
            activeSessions s' = activeSessions s \<and> startingProfiles s' = startingProfiles s \<and>
            close_calls (trace s') = close_calls (trace s) @ [b] \<and>
            (\<forall>ce. close_result env = Rejected ce \<longrightarrow>
               LogError ''Error closing browser after failed start:'' ce \<in> set (trace s'))) \<or>
         (\<exists>prof b pg sm. getProfile_result env = Resolved (Some prof) \<and>
            launch_result env = Resolved (b, pg) \<and> goto_result env = Resolved () \<and> r = Inr sm \<and>
            sum_headless sm = (case opt_headless opts of Some h \<Rightarrow> h | None \<Rightarrow>
                                (case defaultHeadless prof of Some d \<Rightarrow> d | None \<Rightarrow> False)) \<and>
            activeSessions s' = Map_set p \<lparr>browser = Some b, page = pg, session_profile = prof,
               startTime = clock env, status = ''running'', headless = sum_headless sm\<rparr>
               (activeSessions s) \<and>
            startingProfiles s' = startingProfiles s \<and>
            Call_createBrowserWithProfile prof (sum_headless sm) \<in> set (trace s') \<and>
            Call_on_disconnected b p \<in> set (trace s') \<and> set (trace s) \<subseteq> set (trace s') \<and>
            close_calls (trace s') = close_calls (trace s))"
proof -
  have abs: "Map_get p (activeSessions s) = None"
    using assms(3) by (simp add: Map_has_def)
  note run = start_run.simps[of env]
  show ?thesis
  proof (cases "getProfile_result env")
    case (Rejected e0)
    with assms abs show ?thesis
      by (clarsimp simp add: startBrowser_def start_enter_def run start_defs close_calls_append
          Let_def)
  next
    case (Resolved po)
    show ?thesis
    proof (cases po)
      case None
      with Resolved assms abs show ?thesis
        by (clarsimp simp add: startBrowser_def start_enter_def run start_defs close_calls_append
            Let_def)
    next
      case (Some prof)
      show ?thesis
      proof (cases "launch_result env")
        case (Rejected le)
        with Some Resolved assms abs show ?thesis
          by (clarsimp simp add: startBrowser_def start_enter_def run start_defs
              close_calls_append Let_def)
            (rule launch_error_fst)
      next
        case R2: (Resolved bp)
        obtain b pg where bp: "bp = (b, pg)" by (cases bp)
        show ?thesis
        proof (cases "goto_result env")
          case (Rejected ge)
          with R2 bp Some Resolved assms abs show ?thesis
            by (cases "close_result env";
                clarsimp simp add: startBrowser_def start_enter_def run start_defs
                  close_calls_append Let_def Map_get_set_same Map_delete_set_absent)
        next
          case R3: (Resolved u)
          with R2 bp Some Resolved assms abs show ?thesis
            by (auto simp add: startBrowser_def start_enter_def run start_defs
                close_calls_append Let_def Map_get_set_same)
        qed
      qed
    qed
  qed
qed

lemma startBrowser_Inr_guards:
  assumes "startBrowser env p url opts s = (Inr sm, s')"
  shows "p \<notin> startingProfiles s \<and> \<not> Map_has p (activeSessions s)"
  using assms by (auto simp: startBrowser_def start_enter_def split: if_splits)


lemma stopBrowser_trace: "set (trace s) \<subseteq> set (trace (snd (stopBrowser env p s)))"
  by (cases "close_result env")
    (auto simp: stopBrowser_def stop_enter_def stop_run.simps[of env] stop_after_close_def
      stop_succeed_def Let_def split: option.splits)

subsection \<open>A failing start and a resumed stop in any reachable configuration\<close>

lemma start_catch_rolled:
  assumes "registry_ok (activeSessions s)" and "start_catch p e s = (r, s')"
  shows "(case Map_get p (activeSessions s) of
            None \<Rightarrow> r = Throw e \<and> close_calls (trace s') = close_calls (trace s)
          | Some sess \<Rightarrow>
              (\<exists>b. browser sess = Some b \<and>
                   close_calls (trace s') = close_calls (trace s) @ [b]) \<and>
              r = Await (Start_cleanup_close p e)) \<and>
         (\<forall>e'. r = Throw e' \<longrightarrow>
            \<not> Map_has p (activeSessions s') \<and> p \<notin> startingProfiles s')"
proof (cases "Map_get p (activeSessions s)")
  case None
  with assms(2) show ?thesis
    by (auto simp: start_catch_absent Map_has_def close_calls_append)
next
  case (Some sess)
  then have "(p, sess) \<in> set (activeSessions s)" by (rule Map_get_Some_in_set)
  with assms(1) obtain b where "browser sess = Some b"
    unfolding registry_ok_def by blast
  with Some assms(2) show ?thesis
    by (auto simp: start_catch_def Let_def close_calls_append)
qed

lemma start_resume_Throw:
  assumes "registry_ok (activeSessions s)" and "start_resume env t s = (Throw e, s')"
  shows "\<not> Map_has (start_task_pid t) (activeSessions s') \<and>
         start_task_pid t \<notin> startingProfiles s'"
proof (cases t)
  case (Start_getProfile p url opts)
  with assms show ?thesis
    by (cases "getProfile_result env")
      (auto simp: start_after_getProfile_def Let_def split: option.splits
        dest: start_catch_rolled[OF assms(1)])
next
  case (Start_launch p url prof hl)
  have ok: "registry_ok (activeSessions (snd (launch_error p le s)))" for le
    using assms(1) by simp
  from assms Start_launch show ?thesis
    by (cases "launch_result env")
      (auto simp: start_after_launch_def Let_def case_prod_beta dest: start_catch_rolled[OF ok])
next
  case (Start_goto p prof hl sess)
  with assms show ?thesis
    by (cases "goto_result env")
      (auto simp: start_after_goto_def Let_def dest: start_catch_rolled[OF assms(1)])
next
  case (Start_cleanup_close p e0)
  from assms(1) have "distinct (Map_keys (activeSessions s))" by (simp add: registry_ok_def)
  then have "Map_get p (Map_delete p (activeSessions s)) = None" by (rule Map_get_delete_same)
  with assms(2) Start_cleanup_close show ?thesis
    by (cases "close_result env")
      (auto simp: start_after_cleanup_close_def start_rethrow_def Map_has_def)
qed


subsection \<open>The sample inputs\<close>

lemma sample_env_simps [simp]:
  "getProfile_result sample_env = Resolved (Some sample_profile)"
  "launch_result sample_env = Resolved (7, 8)"
  "goto_result sample_env = Resolved ()"
  "close_result sample_env = Rejected (JsError ''Target closed'' None None None)"
  "url_result sample_env = ''https://example.com/''"
  "title_result sample_env = Resolved ''Example''"
  "evaluate_result sample_env = Resolved ''2''"
  "clock sample_env = 1000"
  by (simp_all add: sample_env_def)

lemma sample_env2_simps [simp]:
  "getProfile_result sample_env2 = Resolved (Some sample_profile)"
  "launch_result sample_env2 = Resolved (9, 10)"
  "goto_result sample_env2 = Resolved ()"
  "clock sample_env2 = 2000"
  by (simp_all add: sample_env2_def)

lemma sample_env_unreachable_simps [simp]:
  "getProfile_result sample_env_unreachable = Resolved (Some sample_profile)"
  "launch_result sample_env_unreachable = Resolved (7, 8)"
  "goto_result sample_env_unreachable = Rejected (JsError ''net::ERR_FAILED'' None None None)"
  "close_result sample_env_unreachable = Rejected (JsError ''Target closed'' None None None)"
  "clock sample_env_unreachable = 1000"
  by (simp_all add: sample_env_unreachable_def)

lemma sample_running_simps:
  "activeSessions sample_running =
     [(''abc'', \<lparr>browser = Some 7, page = 8, session_profile = sample_profile,
                 startTime = 1000, status = ''running'', headless = True\<rparr>)]"
  "startingProfiles sample_running = {}"
  "stoppingProfiles sample_running = {}"
  by (simp_all add: sample_running_def startBrowser_def start_enter_def init_def Map_has_def
      start_run.simps[of sample_env] start_defs sample_profile_def Let_def)

lemma sample_start_Inr:
  "\<exists>sm. startBrowser sample_env ''abc'' None \<lparr>opt_headless = None\<rparr> init = (Inr sm, sample_running)"
  by (simp add: sample_running_def startBrowser_def start_enter_def init_def Map_has_def
      start_run.simps[of sample_env] start_defs Let_def)

lemma sample_running_reachable: "reachable (sample_running, [])"
  unfolding sample_running_def by (rule startBrowser_reachable[OF reachable_init])

lemma sample_starting_simps:
  "start_enter ''abc'' None \<lparr>opt_headless = None\<rparr> init =
     (Await (Start_getProfile ''abc'' None \<lparr>opt_headless = None\<rparr>), sample_starting)"
  "activeSessions sample_starting = []"
  "startingProfiles sample_starting = {''abc''}"
  "stoppingProfiles sample_starting = {}"
  by (simp_all add: sample_starting_def start_enter_def init_def Map_has_def)

lemma sample_starting_reachable:
  "reachable (sample_starting, [StartT (Start_getProfile ''abc'' None \<lparr>opt_headless = None\<rparr>)])"
  using reachable_step[OF reachable_init
      transition.call_startBrowser[OF sample_starting_simps(1), of "[]"]]
  by (simp add: spawn_def)

lemma sample_stop_enter:
  "stop_enter ''abc'' sample_running = (Await (Stop_close ''abc''), sample_stopping)"
  by (simp add: sample_stopping_def stop_enter_def sample_running_simps Let_def)

lemma sample_stopping_simps:
  "activeSessions sample_stopping = activeSessions sample_running"
  "startingProfiles sample_stopping = {}"
  "stoppingProfiles sample_stopping = {''abc''}"
  by (simp_all add: sample_stopping_def stop_enter_def sample_running_simps Let_def)

lemma sample_stopping_reachable: "reachable (sample_stopping, [StopT (Stop_close ''abc'')])"
  using reachable_step[OF sample_running_reachable
      transition.call_stopBrowser[OF sample_stop_enter, of "[]"]]
  by (simp add: spawn_def)

lemma sample_stop_result:
  "stopBrowser sample_env ''abc'' sample_running = (Inr True, sample_stopped)"
  by (simp add: sample_stopped_def stopBrowser_def sample_stop_enter
      stop_run.simps[of sample_env] stop_after_close_def Let_def)

lemma sample_stopped_simps:
  "activeSessions sample_stopped = []"
  "startingProfiles sample_stopped = {}"
  "stoppingProfiles sample_stopped = {}"
  by (simp_all add: sample_stopped_def stopBrowser_def sample_stop_enter
      stop_run.simps[of sample_env] stop_after_close_def Let_def sample_stopping_simps
      sample_running_simps)

lemma sample_restart_Inr:
  "\<exists>sm. startBrowser sample_env2 ''abc'' None \<lparr>opt_headless = Some False\<rparr> sample_stopped =
     (Inr sm, sample_restarted)"
  by (simp add: sample_restarted_def startBrowser_def start_enter_def sample_stopped_simps
      Map_has_def start_run.simps[of sample_env2] start_defs Let_def)

lemma sample_steps:
  "start_resume sample_env (Start_getProfile ''abc'' None \<lparr>opt_headless = None\<rparr>) sample_starting =
     (Await (Start_launch ''abc'' None sample_profile True), sample_launching)"
  "start_resume sample_env (Start_launch ''abc'' None sample_profile True) sample_launching =
     (Await (Start_goto ''abc'' sample_profile True sample_session), sample_launched)"
  by (simp_all add: sample_launching_def sample_launched_def sample_session_def
      start_after_getProfile_def start_after_launch_def Let_def)
    (simp_all add: sample_profile_def)

lemma sample_launched_simps:
  "activeSessions sample_launched = [(''abc'', sample_session)]"
  "startingProfiles sample_launched = {''abc''}"
  "stoppingProfiles sample_launched = {}"
  "close_calls (trace sample_launched) = []"
  "Call_on_disconnected 7 ''abc'' \<in> set (trace sample_launched)"
  by (simp_all add: sample_launched_def sample_launching_def sample_session_def
      sample_starting_def start_enter_def init_def Map_has_def
      start_after_getProfile_def start_after_launch_def Let_def sample_profile_def)

lemma sample_launched_reachable:
  "reachable (sample_launched, [StartT (Start_goto ''abc'' sample_profile True sample_session)])"
proof -
  have "transition
      (sample_starting, [StartT (Start_getProfile ''abc'' None \<lparr>opt_headless = None\<rparr>)])
      (sample_launching, [StartT (Start_launch ''abc'' None sample_profile True)])"
    using transition.resume_start[OF sample_steps(1), of "[]" "[]"] by (simp add: spawn_def)
  with sample_starting_reachable
  have "reachable (sample_launching, [StartT (Start_launch ''abc'' None sample_profile True)])"
    by (rule reachable_step)
  moreover have "transition
      (sample_launching, [StartT (Start_launch ''abc'' None sample_profile True)])
      (sample_launched, [StartT (Start_goto ''abc'' sample_profile True sample_session)])"
    using transition.resume_start[OF sample_steps(2), of "[]" "[]"] by (simp add: spawn_def)
  ultimately show ?thesis by (rule reachable_step)
qed

lemma sample_disconnected_reachable:
  "reachable (sample_disconnected,
     [StartT (Start_goto ''abc'' sample_profile True sample_session)])"
  unfolding sample_disconnected_def
  by (rule reachable_step[OF sample_launched_reachable])
    (rule transition.disconnected[OF sample_launched_simps(5)])

lemma sample_disconnected_simps:
  "activeSessions sample_disconnected = []"
  "close_calls (trace sample_disconnected) = []"
  by (simp_all add: sample_disconnected_def on_disconnected_def Let_def sample_launched_simps
      close_calls_append)

lemma sample_rollback_step:
  "start_resume sample_env_unreachable (Start_goto ''abc'' sample_profile True sample_session)
     sample_launched =
     (Await (Start_cleanup_close ''abc'' (JsError ''net::ERR_FAILED'' None None None)),
      sample_rollback)"
  by (simp add: sample_rollback_def start_after_goto_def start_catch_def Let_def
      sample_launched_simps sample_session_def)


lemma sample_rollback_reachable:
  "reachable (sample_rollback,
     [StartT (Start_cleanup_close ''abc'' (JsError ''net::ERR_FAILED'' None None None))])"
proof -
  have "transition
      (sample_launched, [StartT (Start_goto ''abc'' sample_profile True sample_session)])
      (sample_rollback,
       [StartT (Start_cleanup_close ''abc'' (JsError ''net::ERR_FAILED'' None None None))])"
    using transition.resume_start[OF sample_rollback_step, of "[]" "[]"]
    by (simp add: spawn_def)
  with sample_launched_reachable show ?thesis by (rule reachable_step)
qed



section \<open>The claims\<close>

text \<open>
  C1. At most one active session per profile, under every interleaving of calls at their
  suspension points and of disconnect events: in every configuration the service can
  reach, the registry holds at most one entry keyed by \<open>p\<close>. A call of
  \<^verbatim>\<open>startBrowser(p)\<close> throws the already-starting error when \<open>p\<close> is in
  \<^verbatim>\<open>startingProfiles\<close> (whether or not \<open>p\<close> is registered: this test comes first),
  and throws the error with code \<^verbatim>\<open>SESSION_ACTIVE\<close> and \<^verbatim>\<open>profileId\<close> \<open>p\<close> when
  \<open>p\<close> is registered and not starting; neither changes the state. A start of \<open>p\<close>
  that waits for its launch finds no entry for \<open>p\<close>, so the \<^verbatim>\<open>set\<close> of line 90
  never replaces a session.
\<close>

theorem at_most_one_session:
  assumes "reachable (s, ts)"
  shows "length (filter (\<lambda>(k, sess). k = p) (activeSessions s)) \<le> 1 \<and>
         (p \<in> startingProfiles s \<longrightarrow>
            startBrowser env p url opts s =
              (Inl (JsError (''Browser is currently starting for profile '' @ p) None None None),
               s)) \<and>
         (p \<notin> startingProfiles s \<and> Map_has p (activeSessions s) \<longrightarrow>
            startBrowser env p url opts s =
              (Inl (JsError ''Browser session already running for this profile''
                      (Some ''SESSION_ACTIVE'') (Some p) None), s)) \<and>
         (\<forall>url' prof hl. StartT (Start_launch p url' prof hl) \<in> set ts \<longrightarrow>
            \<not> Map_has p (activeSessions s))"
proof -
  from assms have inv: "invariant (s, ts)" by (rule reachable_invariant)
  then have "distinct (Map_keys (activeSessions s))" by (simp add: invariant_def)
  then have one: "length (filter (\<lambda>(k, sess). k = p) (activeSessions s)) \<le> 1"
    by (rule distinct_keys_filter)
  have fresh: "\<not> Map_has p (activeSessions s)"
    if "StartT (Start_launch p url' prof hl) \<in> set ts" for url' prof hl
    using inv that unfolding invariant_def Map_has_def by fastforce
  from one fresh show ?thesis
    by (simp add: startBrowser_def start_enter_def)
qed

theorem at_most_one_session_witness:
  "reachable (sample_starting, [StartT (Start_getProfile ''abc'' None \<lparr>opt_headless = None\<rparr>)]) \<and>
   ''abc'' \<in> startingProfiles sample_starting \<and>
   startBrowser sample_env ''abc'' None \<lparr>opt_headless = None\<rparr> sample_starting =
     (Inl (JsError ''Browser is currently starting for profile abc'' None None None),
      sample_starting) \<and>
   reachable (sample_running, []) \<and>
   ''abc'' \<notin> startingProfiles sample_running \<and> Map_has ''abc'' (activeSessions sample_running) \<and>
   startBrowser sample_env ''abc'' None \<lparr>opt_headless = None\<rparr> sample_running =
     (Inl (JsError ''Browser session already running for this profile''
             (Some ''SESSION_ACTIVE'') (Some ''abc'') None), sample_running) \<and>
   length (filter (\<lambda>(k, sess). k = ''abc'') (activeSessions sample_running)) \<le> 1"
  using at_most_one_session
    [OF sample_starting_reachable, of "''abc''" sample_env None "\<lparr>opt_headless = None\<rparr>"]
    at_most_one_session
    [OF sample_running_reachable, of "''abc''" sample_env None "\<lparr>opt_headless = None\<rparr>"]
    sample_starting_reachable sample_running_reachable
  by (simp add: sample_starting_simps sample_running_simps Map_has_def)

text \<open>
  C2. Guard-set membership is scoped to the call in flight. In every reachable
  configuration \<open>p\<close> is in \<^verbatim>\<open>startingProfiles\<close> exactly when a call of
  \<^verbatim>\<open>startBrowser(p)\<close> waits at an \<^verbatim>\<open>await\<close>, and in \<^verbatim>\<open>stoppingProfiles\<close>
  exactly when a call of \<^verbatim>\<open>stopBrowser(p)\<close> does, and at most one call of each kind
  waits for \<open>p\<close>; so with no such call in flight \<open>p\<close> is in neither set. A start that
  passes its two guards has added \<open>p\<close> when it first waits and has removed it when it
  is over, whatever its outcome; likewise a stop that finds \<open>p\<close> registered and not
  stopping.
\<close>

theorem guard_sets_scoped:
  assumes "reachable (s, ts)"
  shows "(p \<in> startingProfiles s \<longleftrightarrow> p \<in> set (starting_of ts)) \<and>
         (p \<in> stoppingProfiles s \<longleftrightarrow> p \<in> set (stopping_of ts)) \<and>
         distinct (starting_of ts) \<and> distinct (stopping_of ts) \<and>
         (p \<notin> startingProfiles s \<and> \<not> Map_has p (activeSessions s) \<longrightarrow>
            p \<in> startingProfiles (snd (start_enter p url opts s)) \<and>
            p \<notin> startingProfiles (snd (startBrowser env p url opts s))) \<and>
         (p \<notin> stoppingProfiles s \<and> Map_has p (activeSessions s) \<longrightarrow>
            p \<in> stoppingProfiles (snd (stop_enter p s)) \<and>
            p \<notin> stoppingProfiles (snd (stopBrowser env p s)))"
proof -
  from assms have inv: "invariant (s, ts)" by (rule reachable_invariant)
  have after_start: "invariant (snd (startBrowser env p url opts s), ts)"
    using assms by (intro reachable_invariant startBrowser_reachable)
  have after_stop: "invariant (snd (stopBrowser env p s), ts)"
    using assms by (intro reachable_invariant stopBrowser_reachable)
  have enter: "p \<in> startingProfiles (snd (start_enter p url opts s))"
    if "p \<notin> startingProfiles s" "\<not> Map_has p (activeSessions s)"
    using that by (simp add: start_enter_def)
  have stop_waits: "p \<in> stoppingProfiles (snd (stop_enter p s))"
    if "p \<notin> stoppingProfiles s" "Map_has p (activeSessions s)"
  proof -
    from that(2) obtain sess where sess: "Map_get p (activeSessions s) = Some sess"
      by (auto simp: Map_has_def)
    then have "(p, sess) \<in> set (activeSessions s)"
      by (rule Map_get_Some_in_set)
    with inv have "browser sess \<noteq> None" unfolding invariant_def by blast
    then obtain b where "browser sess = Some b" by blast
    with sess that(1) show ?thesis by (simp add: stop_enter_def Let_def)
  qed
  from inv after_start after_stop enter stop_waits show ?thesis
    by (auto simp: invariant_def)
qed

theorem guard_sets_scoped_witness:
  "reachable (init, []) \<and>
   ''abc'' \<notin> startingProfiles init \<and> \<not> Map_has ''abc'' (activeSessions init) \<and>
   ''abc'' \<in> startingProfiles (snd (start_enter ''abc'' None \<lparr>opt_headless = None\<rparr> init)) \<and>
   ''abc'' \<notin> startingProfiles
      (snd (startBrowser sample_env ''abc'' None \<lparr>opt_headless = None\<rparr> init)) \<and>
   reachable (sample_running, []) \<and>
   ''abc'' \<notin> stoppingProfiles sample_running \<and> Map_has ''abc'' (activeSessions sample_running) \<and>
   ''abc'' \<in> stoppingProfiles (snd (stop_enter ''abc'' sample_running)) \<and>
   ''abc'' \<notin> stoppingProfiles (snd (stopBrowser sample_env ''abc'' sample_running)) \<and>
   reachable (sample_stopping, [StopT (Stop_close ''abc'')]) \<and>
   ''abc'' \<in> stoppingProfiles sample_stopping \<and>
   ''abc'' \<in> set (stopping_of [StopT (Stop_close ''abc'')])"
  using guard_sets_scoped
    [OF reachable_init, of "''abc''" None "\<lparr>opt_headless = None\<rparr>" sample_env]
    guard_sets_scoped
    [OF sample_running_reachable, of "''abc''" None "\<lparr>opt_headless = None\<rparr>" sample_env]
    guard_sets_scoped
    [OF sample_stopping_reachable, of "''abc''" None "\<lparr>opt_headless = None\<rparr>" sample_env]
    reachable_init sample_running_reachable sample_stopping_reachable
  by (simp add: init_def sample_running_simps sample_stopping_simps Map_has_def)

text \<open>
  C3. A failed start is rolled back, under every interleaving. Take any configuration
  the service can reach in which a start of \<open>p\<close> waits, and resume it.
  \<^item> When the call ends by throwing, the registry has no entry for \<open>p\<close> and \<open>p\<close>
    is no longer starting.
  \<^item> When the step fails (the profile lookup is rejected or answers null, the launch is
    rejected, the navigation is rejected) with primary error \<open>e\<close>: if the registry
    holds no entry for \<open>p\<close> at that moment, \<open>e\<close> is thrown at once and
    \<^verbatim>\<open>close()\<close> is not called; if it holds one, \<^verbatim>\<open>close()\<close> is called once, on the
    browser of that entry, and the call waits for it, keeping \<open>e\<close>.
  \<^item> Before line 90 (lookup, launch) the registry never holds an entry for \<open>p\<close>.
  \<^item> When that close has settled, the call throws \<open>e\<close>; a rejected close is logged
    and does not replace \<open>e\<close>.
  The handle is thus closed when the entry is still registered as the failure is caught,
  not whenever an entry had been created.
\<close>

theorem start_rolled_back:
  assumes "reachable (s, ts1 @ StartT t # ts2)" and "start_resume env t s = (r, s')"
  shows "(\<forall>e. r = Throw e \<longrightarrow>
            \<not> Map_has (start_task_pid t) (activeSessions s') \<and>
            start_task_pid t \<notin> startingProfiles s') \<and>
         (\<forall>p e. (\<exists>url opts. t = Start_getProfile p url opts \<and>
                    (getProfile_result env = Rejected e \<or>
                     getProfile_result env = Resolved None \<and>
                     e = JsError (''Profile not found: '' @ p) (Some ''PROFILE_NOT_FOUND'')
                           (Some p) None)) \<or>
                 (\<exists>url prof hl le. t = Start_launch p url prof hl \<and>
                    launch_result env = Rejected le \<and> e = fst (launch_error p le s)) \<or>
                 (\<exists>prof hl sess. t = Start_goto p prof hl sess \<and> goto_result env = Rejected e)
            \<longrightarrow>
            (case Map_get p (activeSessions s) of
               None \<Rightarrow> r = Throw e \<and> close_calls (trace s') = close_calls (trace s)
             | Some sess \<Rightarrow>
                 (\<exists>b. browser sess = Some b \<and>
                      close_calls (trace s') = close_calls (trace s) @ [b]) \<and>
                 r = Await (Start_cleanup_close p e))) \<and>
         (\<forall>p url opts. t = Start_getProfile p url opts \<longrightarrow> \<not> Map_has p (activeSessions s)) \<and>
         (\<forall>p url prof hl. t = Start_launch p url prof hl \<longrightarrow> \<not> Map_has p (activeSessions s)) \<and>
         (\<forall>p e. t = Start_cleanup_close p e \<longrightarrow>
            r = Throw e \<and> close_calls (trace s') = close_calls (trace s) \<and>
            (\<forall>ce. close_result env = Rejected ce \<longrightarrow>
               LogError ''Error closing browser after failed start:'' ce \<in> set (trace s')))"
proof -
  from assms(1) have inv: "invariant (s, ts1 @ StartT t # ts2)" by (rule reachable_invariant)
  then have ok: "registry_ok (activeSessions s)" and fr: "fresh s (ts1 @ StartT t # ts2)"
    by (simp_all add: invariant_alt)
  have ok': "registry_ok (activeSessions (snd (launch_error p le s)))" for p le
    using ok by simp
  have throw: "\<forall>e. r = Throw e \<longrightarrow>
      \<not> Map_has (start_task_pid t) (activeSessions s') \<and> start_task_pid t \<notin> startingProfiles s'"
    using start_resume_Throw[OF ok] assms(2) by blast
  have before: "\<not> Map_has (start_task_pid t) (activeSessions s)" if "before_set t"
    using fr that by (auto simp: fresh_def Map_has_def)
  have failed: "case Map_get p (activeSessions s) of
               None \<Rightarrow> r = Throw e \<and> close_calls (trace s') = close_calls (trace s)
             | Some sess \<Rightarrow>
                 (\<exists>b. browser sess = Some b \<and>
                      close_calls (trace s') = close_calls (trace s) @ [b]) \<and>
                 r = Await (Start_cleanup_close p e)"
    if "(\<exists>url opts. t = Start_getProfile p url opts \<and>
                    (getProfile_result env = Rejected e \<or>
                     getProfile_result env = Resolved None \<and>
                     e = JsError (''Profile not found: '' @ p) (Some ''PROFILE_NOT_FOUND'')
                           (Some p) None)) \<or>
                 (\<exists>url prof hl le. t = Start_launch p url prof hl \<and>
                    launch_result env = Rejected le \<and> e = fst (launch_error p le s)) \<or>
                 (\<exists>prof hl sess. t = Start_goto p prof hl sess \<and> goto_result env = Rejected e)"
    for p e
    using that
  proof (elim disjE exE conjE)
    fix url opts
    assume "t = Start_getProfile p url opts" "getProfile_result env = Rejected e"
    with assms(2) have "start_catch p e s = (r, s')" by (simp add: start_after_getProfile_def)
    from start_catch_rolled[OF ok this] show ?thesis by simp
  next
    fix url opts
    assume "t = Start_getProfile p url opts" "getProfile_result env = Resolved None"
      "e = JsError (''Profile not found: '' @ p) (Some ''PROFILE_NOT_FOUND'') (Some p) None"
    with assms(2) have "start_catch p e s = (r, s')" by (simp add: start_after_getProfile_def)
    from start_catch_rolled[OF ok this] show ?thesis by simp
  next
    fix url prof hl le
    assume "t = Start_launch p url prof hl" "launch_result env = Rejected le"
      "e = fst (launch_error p le s)"
    with assms(2) have "start_catch p e (snd (launch_error p le s)) = (r, s')"
      by (simp add: start_after_launch_def case_prod_beta)
    from start_catch_rolled[OF ok' this] show ?thesis by (simp cong: option.case_cong)
  next
    fix prof hl sess
    assume "t = Start_goto p prof hl sess" "goto_result env = Rejected e"
    with assms(2) have "start_catch p e s = (r, s')" by (simp add: start_after_goto_def)
    from start_catch_rolled[OF ok this] show ?thesis by simp
  qed
  have cleanup: "r = Throw e \<and> close_calls (trace s') = close_calls (trace s) \<and>
            (\<forall>ce. close_result env = Rejected ce \<longrightarrow>
               LogError ''Error closing browser after failed start:'' ce \<in> set (trace s'))"
    if "t = Start_cleanup_close p e" for p e
    using that assms(2)
    by (cases "close_result env")
      (auto simp: start_after_cleanup_close_def start_rethrow_def close_calls_append)
  from throw failed before cleanup show ?thesis
    by (intro conjI allI impI) auto
qed

theorem start_rolled_back_witness:
  "reachable (sample_launched, [StartT (Start_goto ''abc'' sample_profile True sample_session)]) \<and>
   goto_result sample_env_unreachable = Rejected (JsError ''net::ERR_FAILED'' None None None) \<and>
   Map_get ''abc'' (activeSessions sample_launched) = Some sample_session \<and>
   browser sample_session = Some 7 \<and>
   start_resume sample_env_unreachable (Start_goto ''abc'' sample_profile True sample_session)
     sample_launched =
     (Await (Start_cleanup_close ''abc'' (JsError ''net::ERR_FAILED'' None None None)),
      sample_rollback) \<and>
   close_calls (trace sample_rollback) = close_calls (trace sample_launched) @ [7] \<and>
   reachable (sample_rollback,
     [StartT (Start_cleanup_close ''abc'' (JsError ''net::ERR_FAILED'' None None None))]) \<and>
   fst (start_resume sample_env
          (Start_cleanup_close ''abc'' (JsError ''net::ERR_FAILED'' None None None))
          sample_rollback) = Throw (JsError ''net::ERR_FAILED'' None None None) \<and>
   \<not> Map_has ''abc'' (activeSessions (snd (start_resume sample_env
          (Start_cleanup_close ''abc'' (JsError ''net::ERR_FAILED'' None None None))
          sample_rollback))) \<and>
   LogError ''Error closing browser after failed start:'' (JsError ''Target closed'' None None None)
     \<in> set (trace (snd (start_resume sample_env
          (Start_cleanup_close ''abc'' (JsError ''net::ERR_FAILED'' None None None))
          sample_rollback)))"
proof -
  let ?ge = "JsError ''net::ERR_FAILED'' None None None"
  have r1: "reachable (sample_launched,
      [] @ StartT (Start_goto ''abc'' sample_profile True sample_session) # [])"
    using sample_launched_reachable by simp
  have r2: "reachable (sample_rollback, [] @ StartT (Start_cleanup_close ''abc'' ?ge) # [])"
    using sample_rollback_reachable by simp
  have c: "start_resume sample_env (Start_cleanup_close ''abc'' ?ge) sample_rollback =
      (fst (start_resume sample_env (Start_cleanup_close ''abc'' ?ge) sample_rollback),
       snd (start_resume sample_env (Start_cleanup_close ''abc'' ?ge) sample_rollback))"
    by simp
  have b: "browser sample_session = Some 7" by (simp add: sample_session_def)
  have g: "Map_get ''abc'' (activeSessions sample_launched) = Some sample_session"
    by (simp add: sample_launched_simps)
  have "\<exists>prof hl sess. Start_goto ''abc'' sample_profile True sample_session =
          Start_goto ''abc'' prof hl sess \<and>
          goto_result sample_env_unreachable = Rejected ?ge"
    by auto
  with start_rolled_back[OF r1 sample_rollback_step, THEN conjunct2, THEN conjunct1,
      rule_format, of "''abc''" ?ge] g b
  have f1: "close_calls (trace sample_rollback) = close_calls (trace sample_launched) @ [7]"
    by simp
  note last = start_rolled_back[OF r2 c]
  from last[THEN conjunct2, THEN conjunct2, THEN conjunct2, THEN conjunct2, rule_format,
      of "''abc''" ?ge]
  have f2: "fst (start_resume sample_env (Start_cleanup_close ''abc'' ?ge) sample_rollback) =
        Throw ?ge"
    and f3: "LogError ''Error closing browser after failed start:''
          (JsError ''Target closed'' None None None)
        \<in> set (trace (snd (start_resume sample_env (Start_cleanup_close ''abc'' ?ge)
                              sample_rollback)))"
    by (simp_all del: start_resume.simps)
  from last[THEN conjunct1, rule_format, of ?ge] f2
  have f4: "\<not> Map_has ''abc'' (activeSessions (snd (start_resume sample_env
          (Start_cleanup_close ''abc'' ?ge) sample_rollback)))"
    by (simp del: start_resume.simps)
  from sample_launched_reachable sample_rollback_reachable sample_rollback_step b g f1 f2 f3 f4
  show ?thesis by (simp del: start_resume.simps)
qed

text \<open>
  The entry of a start can be gone when its failure is caught: the browser disconnects
  while the first navigation is awaited, the callback of lines 96-99 deletes the entry,
  the navigation is rejected, and the start throws without any call of \<^verbatim>\<open>close()\<close>,
  although its entry had been created.
\<close>

theorem start_rolled_back_counterexample:
  "reachable (sample_launched, [StartT (Start_goto ''abc'' sample_profile True sample_session)]) \<and>
   Map_has ''abc'' (activeSessions sample_launched) \<and>
   transition
     (sample_launched, [StartT (Start_goto ''abc'' sample_profile True sample_session)])
     (sample_disconnected, [StartT (Start_goto ''abc'' sample_profile True sample_session)]) \<and>
   fst (start_resume sample_env_unreachable
          (Start_goto ''abc'' sample_profile True sample_session) sample_disconnected) =
     Throw (JsError ''net::ERR_FAILED'' None None None) \<and>
   close_calls (trace (snd (start_resume sample_env_unreachable
          (Start_goto ''abc'' sample_profile True sample_session) sample_disconnected))) = []"
proof -
  have "transition
     (sample_launched, [StartT (Start_goto ''abc'' sample_profile True sample_session)])
     (sample_disconnected, [StartT (Start_goto ''abc'' sample_profile True sample_session)])"
    unfolding sample_disconnected_def
    by (rule transition.disconnected[OF sample_launched_simps(5)])
  with sample_launched_reachable show ?thesis
    by (simp add: sample_launched_simps Map_has_def start_after_goto_def start_catch_def
        Let_def sample_disconnected_simps close_calls_append)
qed




text \<open>
  C5. The idempotent paths of \<^verbatim>\<open>stopBrowser\<close>. When \<open>p\<close> is in
  \<^verbatim>\<open>stoppingProfiles\<close> the call returns true in its first segment, without an
  \<^verbatim>\<open>await\<close>: the registry is as before and no \<^verbatim>\<open>close()\<close> is called (one line is
  logged). When \<open>x\<close> is neither being stopped nor in the registry the call returns false
  and leaves the state as it was. No call of \<^verbatim>\<open>stopBrowser\<close> throws.
\<close>

theorem stop_idempotent_paths:
  "(p \<in> stoppingProfiles s \<longrightarrow>
      stop_enter p s =
        (Return True, emit (LogInfo (''Browser is already being stopped for profile '' @ p)) s) \<and>
      stopBrowser env p s =
        (Inr True, emit (LogInfo (''Browser is already being stopped for profile '' @ p)) s) \<and>
      activeSessions (snd (stopBrowser env p s)) = activeSessions s \<and>
      close_calls (trace (snd (stopBrowser env p s))) = close_calls (trace s)) \<and>
   (x \<notin> stoppingProfiles s \<and> \<not> Map_has x (activeSessions s) \<longrightarrow>
      stopBrowser env x s = (Inr False, s)) \<and>
   (\<exists>r s'. stopBrowser env y s = (Inr r, s'))"
  by (auto simp: stopBrowser_def stop_enter_def Map_has_def stop_run.simps
      stop_after_close_def stop_succeed_def close_calls_append Let_def
      split: option.splits outcome.splits)

theorem stop_idempotent_paths_witness:
  "''abc'' \<in> stoppingProfiles sample_stopping \<and>
   stopBrowser sample_env ''abc'' sample_stopping =
     (Inr True,
      emit (LogInfo ''Browser is already being stopped for profile abc'') sample_stopping) \<and>
   activeSessions (snd (stopBrowser sample_env ''abc'' sample_stopping)) =
     activeSessions sample_stopping \<and>
   ''xyz'' \<notin> stoppingProfiles sample_stopping \<and>
   \<not> Map_has ''xyz'' (activeSessions sample_stopping) \<and>
   stopBrowser sample_env ''xyz'' sample_stopping = (Inr False, sample_stopping)"
  using stop_idempotent_paths [of "''abc''" sample_stopping sample_env "''xyz''" "''abc''"]
  by (simp add: sample_stopping_simps sample_running_simps Map_has_def)

text \<open>
  C6. Headless resolution: when a call of \<^verbatim>\<open>startBrowser\<close> returns its summary, the
  value resolved is \<^verbatim>\<open>options.headless\<close> when it is given, else the
  \<^verbatim>\<open>defaultHeadless\<close> of the profile when it is given, else false. The browser is
  launched with that value; it is the \<^verbatim>\<open>headless\<close> of the session stored in the
  registry, of the summary returned, and of what \<^verbatim>\<open>getBrowserStatus\<close> reports.
\<close>

theorem headless_resolution:
  assumes "startBrowser env p url opts s = (Inr sm, s')"
  shows "\<exists>prof sess st.
           getProfile_result env = Resolved (Some prof) \<and>
           Map_get p (activeSessions s') = Some sess \<and>
           getBrowserStatus now p s' = Some st \<and>
           (let resolved = (if opt_headless opts \<noteq> None then the (opt_headless opts)
                            else if defaultHeadless prof \<noteq> None then the (defaultHeadless prof)
                            else False)
            in Call_createBrowserWithProfile prof resolved \<in> set (trace s') \<and>
               headless sess = resolved \<and> sum_headless sm = resolved \<and>
               st_headless st = resolved)"
proof -
  from startBrowser_Inr_guards[OF assms]
  have g: "p \<notin> startingProfiles s" "\<not> Map_has p (activeSessions s)" by simp_all
  from startBrowser_outcomes[OF assms g] obtain prof b pg where
    prof: "getProfile_result env = Resolved (Some prof)"
    and hl: "sum_headless sm = (case opt_headless opts of Some h \<Rightarrow> h | None \<Rightarrow>
                                (case defaultHeadless prof of Some d \<Rightarrow> d | None \<Rightarrow> False))"
    and reg: "activeSessions s' = Map_set p \<lparr>browser = Some b, page = pg, session_profile = prof,
               startTime = clock env, status = ''running'', headless = sum_headless sm\<rparr>
               (activeSessions s)"
    and call: "Call_createBrowserWithProfile prof (sum_headless sm) \<in> set (trace s')"
    by auto
  let ?sess = "\<lparr>browser = Some b, page = pg, session_profile = prof, startTime = clock env,
                status = ''running'', headless = sum_headless sm\<rparr>"
  let ?st = "\<lparr>st_profileId = p, st_profileName = name prof, st_status = ''running'',
              st_startTime = clock env, st_headless = sum_headless sm,
              st_uptime = (now - clock env) div 1000\<rparr>"
  from reg have get: "Map_get p (activeSessions s') = Some ?sess"
    by (simp only: Map_get_set_same)
  then have st: "getBrowserStatus now p s' = Some ?st"
    by (simp add: getBrowserStatus_def)
  have "getProfile_result env = Resolved (Some prof) \<and>
        Map_get p (activeSessions s') = Some ?sess \<and>
        getBrowserStatus now p s' = Some ?st \<and>
        (let resolved = (if opt_headless opts \<noteq> None then the (opt_headless opts)
                         else if defaultHeadless prof \<noteq> None then the (defaultHeadless prof)
                         else False)
         in Call_createBrowserWithProfile prof resolved \<in> set (trace s') \<and>
            headless ?sess = resolved \<and> sum_headless sm = resolved \<and>
            st_headless ?st = resolved)"
    using prof get st call hl
    by (cases "opt_headless opts"; cases "defaultHeadless prof") (simp_all add: Let_def)
  then show ?thesis by blast
qed

theorem headless_resolution_witness:
  "\<exists>sm sess st.
     startBrowser sample_env ''abc'' None \<lparr>opt_headless = None\<rparr> init = (Inr sm, sample_running) \<and>
     defaultHeadless sample_profile = Some True \<and>
     Map_get ''abc'' (activeSessions sample_running) = Some sess \<and>
     getBrowserStatus 5000 ''abc'' sample_running = Some st \<and>
     headless sess = True \<and> sum_headless sm = True \<and> st_headless st = True"
proof -
  from sample_start_Inr obtain sm where
    sm: "startBrowser sample_env ''abc'' None \<lparr>opt_headless = None\<rparr> init = (Inr sm, sample_running)"
    by blast
  have d: "defaultHeadless sample_profile = Some True"
    by (simp add: sample_profile_def)
  from headless_resolution[OF sm, of 5000] obtain prof sess st where
    "getProfile_result sample_env = Resolved (Some prof)"
    and get: "Map_get ''abc'' (activeSessions sample_running) = Some sess"
    and st: "getBrowserStatus 5000 ''abc'' sample_running = Some st"
    and res: "let resolved = (if opt_headless \<lparr>opt_headless = None\<rparr> \<noteq> None
                               then the (opt_headless \<lparr>opt_headless = None\<rparr>)
                             else if defaultHeadless prof \<noteq> None then the (defaultHeadless prof)
                             else False)
              in Call_createBrowserWithProfile prof resolved \<in> set (trace sample_running) \<and>
                 headless sess = resolved \<and> sum_headless sm = resolved \<and>
                 st_headless st = resolved"
    by blast
  then have "prof = sample_profile" by simp
  with res d have "headless sess = True \<and> sum_headless sm = True \<and> st_headless st = True"
    by (simp add: Let_def)
  with sm d get st show ?thesis by blast
qed

text \<open>
  C7. Launch-failure classification: when the launch throws \<open>le\<close> in a call of
  \<^verbatim>\<open>startBrowser\<close> that passed its guards and found its profile, the caller receives
  an error whose \<^verbatim>\<open>originalError\<close> is \<open>le\<close>; its code is \<^verbatim>\<open>BROWSER_NOT_FOUND\<close>
  when the message of \<open>le\<close> contains one of \<^verbatim>\<open>executable\<close>, \<^verbatim>\<open>ENOENT\<close>,
  \<^verbatim>\<open>spawn\<close>, \<^verbatim>\<open>not found\<close>, and \<^verbatim>\<open>LAUNCH_FAILED\<close> otherwise, with the
  message of \<open>le\<close> repeated in its own.
\<close>

theorem launch_failure_classification:
  assumes "p \<notin> startingProfiles s" and "\<not> Map_has p (activeSessions s)"
    and "getProfile_result env = Resolved (Some prof)"
    and "launch_result env = Rejected le"
  shows "\<exists>e s'. startBrowser env p url opts s = (Inl e, s') \<and>
           originalError e = Some le \<and>
           (if str_includes (message le) ''executable'' \<or> str_includes (message le) ''ENOENT'' \<or>
               str_includes (message le) ''spawn'' \<or> str_includes (message le) ''not found''
            then code e = Some ''BROWSER_NOT_FOUND''
            else code e = Some ''LAUNCH_FAILED'' \<and>
                 message e = ''Failed to launch browser: '' @ message le)"
proof -
  have nonempty: "message le \<noteq> []" if "str_includes (message le) t" "t \<noteq> []" for t
    using that by (cases "message le") auto
  show ?thesis
    using assms nonempty[of "''executable''"] nonempty[of "''ENOENT''"]
      nonempty[of "''spawn''"] nonempty[of "''not found''"]
    by (auto simp: startBrowser_def start_enter_def Map_has_def start_run.simps[of env]
        start_after_getProfile_def start_after_launch_def launch_error_def start_catch_absent
        Let_def)
qed

theorem launch_failure_classification_witness:
  "''abc'' \<notin> startingProfiles init \<and> \<not> Map_has ''abc'' (activeSessions init) \<and>
   (\<exists>e s'. startBrowser
              (sample_env\<lparr>launch_result :=
                 Rejected (JsError ''spawn /usr/bin/chrome ENOENT'' None None None)\<rparr>)
              ''abc'' None \<lparr>opt_headless = None\<rparr> init = (Inl e, s') \<and>
            originalError e = Some (JsError ''spawn /usr/bin/chrome ENOENT'' None None None) \<and>
            code e = Some ''BROWSER_NOT_FOUND'') \<and>
   (\<exists>e s'. startBrowser
              (sample_env\<lparr>launch_result := Rejected (JsError ''Timed out'' None None None)\<rparr>)
              ''abc'' None \<lparr>opt_headless = None\<rparr> init = (Inl e, s') \<and>
            originalError e = Some (JsError ''Timed out'' None None None) \<and>
            code e = Some ''LAUNCH_FAILED'' \<and>
            message e = ''Failed to launch browser: Timed out'')"
  using launch_failure_classification
    [of "''abc''" init
      "sample_env\<lparr>launch_result :=
         Rejected (JsError ''spawn /usr/bin/chrome ENOENT'' None None None)\<rparr>"
      sample_profile "JsError ''spawn /usr/bin/chrome ENOENT'' None None None"
      None "\<lparr>opt_headless = None\<rparr>"]
    launch_failure_classification
    [of "''abc''" init
      "sample_env\<lparr>launch_result := Rejected (JsError ''Timed out'' None None None)\<rparr>"
      sample_profile "JsError ''Timed out'' None None None" None "\<lparr>opt_headless = None\<rparr>"]
  by (simp add: init_def Map_has_def)

text \<open>
  C8. No-session operations fail uniformly: for a profile \<open>p\<close> with no entry in the
  registry, \<^verbatim>\<open>getBrowserStatus\<close> answers null, and \<^verbatim>\<open>navigateToUrl\<close> and
  \<^verbatim>\<open>executeScript\<close> each throw the no-active-session error for \<open>p\<close>. The state
  after the two throws is the state before them, so neither the registry nor a guard
  set is touched; \<^verbatim>\<open>getBrowserStatus\<close> only reads the state.
\<close>

theorem no_session_operations:
  assumes "\<not> Map_has p (activeSessions s)"
  shows "getBrowserStatus now p s = None \<and>
         navigateToUrl env p url s =
           (Inl (JsError (''No active browser session for profile: '' @ p) None None None), s) \<and>
         executeScript env p script s =
           (Inl (JsError (''No active browser session for profile: '' @ p) None None None), s)"
  using assms
  by (simp add: Map_has_def getBrowserStatus_def navigateToUrl_def navigate_enter_def
      executeScript_def execute_enter_def)

theorem no_session_operations_witness:
  "\<not> Map_has ''abc'' (activeSessions init) \<and>
   getBrowserStatus 5000 ''abc'' init = None \<and>
   navigateToUrl sample_env ''abc'' ''https://example.com'' init =
     (Inl (JsError ''No active browser session for profile: abc'' None None None), init) \<and>
   executeScript sample_env ''abc'' ''1 + 1'' init =
     (Inl (JsError ''No active browser session for profile: abc'' None None None), init)"
  using no_session_operations
    [of "''abc''" init 5000 sample_env "''https://example.com''" "''1 + 1''"]
  by (simp add: Map_has_def init_def)

text \<open>
  C9. Navigation echoes its target: with a session for \<open>p\<close> in the registry,
  \<^verbatim>\<open>navigateToUrl(p, u)\<close> calls \<^verbatim>\<open>goto\<close> on the page of that session with exactly
  \<open>u\<close>, the wait policy \<^verbatim>\<open>networkidle2\<close> and a timeout of 30000 ms. When the
  navigation and the title both succeed it returns success, the URL the page reports
  after the navigation and the title of the page; when the engine rejects the navigation
  the error reaches the caller as it is (and is logged), and so does an error of the
  title.
\<close>

theorem navigation_echoes_target:
  assumes "Map_get p (activeSessions s) = Some sess"
  shows "(goto_result env = Resolved () \<and> title_result env = Resolved t \<longrightarrow>
            navigateToUrl env p u s =
              (Inr \<lparr>nav_success = True, nav_url = url_result env, nav_title = t\<rparr>,
               s\<lparr>trace := trace s @
                    [Call_goto (page sess) u ''networkidle2'' 30000, Call_url (page sess),
                     LogInfo (''Navigation successful for profile '' @ p @ '': '' @ url_result env),
                     Call_title (page sess)]\<rparr>)) \<and>
         (goto_result env = Rejected e \<longrightarrow>
            navigateToUrl env p u s =
              (Inl e,
               s\<lparr>trace := trace s @
                    [Call_goto (page sess) u ''networkidle2'' 30000,
                     LogError (''Navigation failed for profile '' @ p @ '':'') e]\<rparr>)) \<and>
         (goto_result env = Resolved () \<and> title_result env = Rejected e \<longrightarrow>
            fst (navigateToUrl env p u s) = Inl e)"
  using assms
  by (simp add: navigateToUrl_def navigate_enter_def navigate_run.simps navigate_after_goto_def
      navigate_after_title_def navigate_fail_def emit_def Let_def)

theorem navigation_echoes_target_witness:
  "Map_get ''abc'' (activeSessions sample_running) =
     Some \<lparr>browser = Some 7, page = 8, session_profile = sample_profile, startTime = 1000,
           status = ''running'', headless = True\<rparr> \<and>
   navigateToUrl sample_env ''abc'' ''https://example.org/a'' sample_running =
     (Inr \<lparr>nav_success = True, nav_url = ''https://example.com/'', nav_title = ''Example''\<rparr>,
      sample_running\<lparr>trace := trace sample_running @
        [Call_goto 8 ''https://example.org/a'' ''networkidle2'' 30000, Call_url 8,
         LogInfo ''Navigation successful for profile abc: https://example.com/'',
         Call_title 8]\<rparr>) \<and>
   fst (navigateToUrl
          (sample_env\<lparr>goto_result := Rejected (JsError ''net::ERR_FAILED'' None None None)\<rparr>)
          ''abc'' ''https://example.org/a'' sample_running) =
     Inl (JsError ''net::ERR_FAILED'' None None None)"
  using navigation_echoes_target
    [of "''abc''" sample_running
      "\<lparr>browser = Some 7, page = 8, session_profile = sample_profile, startTime = 1000,
        status = ''running'', headless = True\<rparr>"
      sample_env "''Example''" "''https://example.org/a''" "JsError ''x'' None None None"]
    navigation_echoes_target
    [of "''abc''" sample_running
      "\<lparr>browser = Some 7, page = 8, session_profile = sample_profile, startTime = 1000,
        status = ''running'', headless = True\<rparr>"
      "sample_env\<lparr>goto_result := Rejected (JsError ''net::ERR_FAILED'' None None None)\<rparr>"
      "''Example''" "''https://example.org/a''" "JsError ''net::ERR_FAILED'' None None None"]
  by (simp add: sample_running_simps)

text \<open>
  C10. The disconnect callback registered by a start of \<open>p\<close> deletes the entry under
  \<open>p\<close> whatever session it holds; with no entry for \<open>p\<close> it leaves the registry as
  it is. So after a start of \<open>p\<close> on browser \<open>b1\<close>, a stop of \<open>p\<close> and a second
  start of \<open>p\<close> on browser \<open>b2\<close>, the callback that was registered on \<open>b1\<close> can
  still fire; the entry of \<open>p\<close> then holds the session of \<open>b2\<close>, and the callback
  removes it.
\<close>

theorem disconnect_callback_unconditional:
  "activeSessions (on_disconnected p s) = Map_delete p (activeSessions s) \<and>
   (\<not> Map_has p (activeSessions s) \<longrightarrow>
      activeSessions (on_disconnected p s) = activeSessions s) \<and>
   (startBrowser env1 p url1 opts1 s0 = (Inr sm1, s1) \<and> launch_result env1 = Resolved (b1, pg1) \<and>
    stopBrowser env p s1 = (Inr True, s2) \<and>
    startBrowser env2 p url2 opts2 s2 = (Inr sm2, s3) \<and> launch_result env2 = Resolved (b2, pg2) \<longrightarrow>
      Call_on_disconnected b1 p \<in> set (trace s3) \<and>
      transition (s3, ts) (on_disconnected p s3, ts) \<and>
      (\<exists>sess. Map_get p (activeSessions s3) = Some sess \<and> browser sess = Some b2) \<and>
      \<not> Map_has p (activeSessions (on_disconnected p s3)))"
proof (intro conjI impI)
  show del: "activeSessions (on_disconnected p s) = Map_delete p (activeSessions s)" for s
    by (simp add: on_disconnected_def Let_def)
  show "activeSessions (on_disconnected p s) = activeSessions s"
    if "\<not> Map_has p (activeSessions s)"
    using that by (simp add: del Map_has_def Map_delete_absent)
  assume a: "startBrowser env1 p url1 opts1 s0 = (Inr sm1, s1) \<and>
    launch_result env1 = Resolved (b1, pg1) \<and> stopBrowser env p s1 = (Inr True, s2) \<and>
    startBrowser env2 p url2 opts2 s2 = (Inr sm2, s3) \<and> launch_result env2 = Resolved (b2, pg2)"
  then have st1: "startBrowser env1 p url1 opts1 s0 = (Inr sm1, s1)"
    and l1: "launch_result env1 = Resolved (b1, pg1)"
    and stp: "stopBrowser env p s1 = (Inr True, s2)"
    and st2: "startBrowser env2 p url2 opts2 s2 = (Inr sm2, s3)"
    and l2: "launch_result env2 = Resolved (b2, pg2)"
    by simp_all
  from startBrowser_Inr_guards[OF st1]
  have g1: "p \<notin> startingProfiles s0" "\<not> Map_has p (activeSessions s0)" by simp_all
  from startBrowser_outcomes[OF st1 g1] l1
  have on1: "Call_on_disconnected b1 p \<in> set (trace s1)" by auto
  from stopBrowser_trace[of s1 env p] stp have t12: "set (trace s1) \<subseteq> set (trace s2)" by simp
  from startBrowser_Inr_guards[OF st2]
  have g2: "p \<notin> startingProfiles s2" "\<not> Map_has p (activeSessions s2)" by simp_all
  from startBrowser_outcomes[OF st2 g2] l2 obtain sess where
    t23: "set (trace s2) \<subseteq> set (trace s3)"
    and reg: "activeSessions s3 = Map_set p sess (activeSessions s2)"
    and br: "browser sess = Some b2"
    by auto
  from on1 t12 t23 show on3: "Call_on_disconnected b1 p \<in> set (trace s3)" by blast
  then show "transition (s3, ts) (on_disconnected p s3, ts)" by (rule transition.disconnected)
  from reg br show "\<exists>sess. Map_get p (activeSessions s3) = Some sess \<and> browser sess = Some b2"
    by (auto simp: Map_get_set_same)
  from reg g2(2) show "\<not> Map_has p (activeSessions (on_disconnected p s3))"
    by (simp add: del Map_has_def Map_delete_set_absent)
qed

theorem disconnect_callback_unconditional_witness:
  "(\<exists>sm1 sm2.
      startBrowser sample_env ''abc'' None \<lparr>opt_headless = None\<rparr> init = (Inr sm1, sample_running) \<and>
      launch_result sample_env = Resolved (7, 8) \<and>
      stopBrowser sample_env ''abc'' sample_running = (Inr True, sample_stopped) \<and>
      startBrowser sample_env2 ''abc'' None \<lparr>opt_headless = Some False\<rparr> sample_stopped =
        (Inr sm2, sample_restarted) \<and>
      launch_result sample_env2 = Resolved (9, 10)) \<and>
   Call_on_disconnected 7 ''abc'' \<in> set (trace sample_restarted) \<and>
   transition (sample_restarted, []) (on_disconnected ''abc'' sample_restarted, []) \<and>
   (\<exists>sess. Map_get ''abc'' (activeSessions sample_restarted) = Some sess \<and> browser sess = Some 9) \<and>
   \<not> Map_has ''abc'' (activeSessions (on_disconnected ''abc'' sample_restarted))"
proof -
  from sample_start_Inr obtain sm1 where
    s1: "startBrowser sample_env ''abc'' None \<lparr>opt_headless = None\<rparr> init = (Inr sm1, sample_running)"
    by blast
  from sample_restart_Inr obtain sm2 where
    s2: "startBrowser sample_env2 ''abc'' None \<lparr>opt_headless = Some False\<rparr> sample_stopped =
           (Inr sm2, sample_restarted)"
    by blast
  from disconnect_callback_unconditional
    [of "''abc''" sample_restarted sample_env None "\<lparr>opt_headless = None\<rparr>" init sm1
      sample_running 7 8 sample_env sample_stopped sample_env2 None
      "\<lparr>opt_headless = Some False\<rparr>" sm2 sample_restarted 9 10 "[]"]
    s1 s2 sample_stop_result
  show ?thesis by auto
qed

end
